theory Spec2Isabelle
  imports Complex_Main "HOL-Library.Log_Nat" "HOL-Library.Multiset"
begin

section \<open>Python values used by the estimator\<close>

text \<open>
  Exceptions are values. Each constructor carries the message of the exception.
  \<open>CrawlerError\<close> stands for whatever one of the two crawlers raises; the crawlers are
  not part of the sources at hand and enter the model as parameters. \<open>UsageError\<close> is
  the error of the command-line parser: the usage and the message go to standard
  error and the process exits with status 2.
\<close>

datatype py_error =
    ValueError string
  | OverflowError string
  | ZeroDivisionError string
  | UnicodeEncodeError string
  | CrawlerError string
  | UsageError string

text \<open>
  A Python \<open>str\<close> is a sequence of Unicode code points (numbers below \<open>0x110000\<close>);
  \<open>len\<close> counts code points. Paths, URLs and model names are only ever tested for
  emptiness and passed on, so they are plain strings.
\<close>

type_synonym pystr = "nat list"

definition truthy :: "string option \<Rightarrow> bool" where
  "truthy s = (case s of None \<Rightarrow> False | Some t \<Rightarrow> t \<noteq> [])"

definition py_or :: "string option \<Rightarrow> string option \<Rightarrow> string option" where
  "py_or a b = (if truthy a then a else b)"

subsection \<open>Floats: IEEE 754 binary64, round to nearest, ties to even\<close>

text \<open>
  A Python \<open>float\<close> is a binary64 number. A finite one is kept as the rational it
  denotes; the sign of a zero is not kept, which no operation used here can observe.
  Every arithmetic result is the exact rational result rounded to the nearest
  representable number, ties to the even significand: 53 significant bits, the least
  exponent of the last bit \<open>-1074\<close>, overflow to infinity from \<open>2 ^ 1024\<close> on.
\<close>

datatype py_float = Finite rat | PosInf | NegInf | NaN

definition pow2 :: "int \<Rightarrow> rat" where
  "pow2 e = power_int 2 e"

definition ilog2 :: "rat \<Rightarrow> int" where
  "ilog2 q = (let (n, d) = quotient_of q; k = bitlen n - bitlen d
              in if pow2 k \<le> q then k else k - 1)"

definition round_half_even :: "rat \<Rightarrow> int" where
  "round_half_even q =
     (let f = \<lfloor>q\<rfloor>; r = q - of_int f
      in if r < 1 / 2 then f else if 1 / 2 < r then f + 1
         else if even f then f else f + 1)"

definition expo :: "rat \<Rightarrow> int" where
  "expo q = max (ilog2 q - 52) (- 1074)"

definition round_pos :: "rat \<Rightarrow> rat" where
  "round_pos q = of_int (round_half_even (q / pow2 (expo q))) * pow2 (expo q)"

definition round_to_double :: "rat \<Rightarrow> py_float" where
  "round_to_double q =
     (if q = 0 then Finite 0
      else let r = round_pos \<bar>q\<bar>
           in if pow2 1024 \<le> r then (if 0 < q then PosInf else NegInf)
              else Finite (if 0 < q then r else - r))"

definition is_double :: "py_float \<Rightarrow> bool" where
  "is_double x = (case x of Finite q \<Rightarrow> round_to_double q = Finite q | _ \<Rightarrow> True)"

text \<open>\<open>a / b\<close> on two \<open>int\<close>s: the correctly rounded quotient.\<close>

definition int_truediv :: "int \<Rightarrow> int \<Rightarrow> py_error + py_float" where
  "int_truediv a b =
     (if b = 0 then Inl (ZeroDivisionError ''division by zero'')
      else case round_to_double (of_int a / of_int b) of
             Finite r \<Rightarrow> Inr (Finite r)
           | _ \<Rightarrow> Inl (OverflowError ''integer division result too large for a float''))"

text \<open>The conversion of an \<open>int\<close> operand in mixed arithmetic.\<close>

definition float_of_int :: "int \<Rightarrow> py_error + py_float" where
  "float_of_int n =
     (case round_to_double (of_int n) of
        Finite r \<Rightarrow> Inr (Finite r)
      | _ \<Rightarrow> Inl (OverflowError ''int too large to convert to float''))"

fun float_mul :: "py_float \<Rightarrow> py_float \<Rightarrow> py_float" where
  "float_mul NaN y = NaN"
| "float_mul x NaN = NaN"
| "float_mul (Finite a) (Finite b) = round_to_double (a * b)"
| "float_mul (Finite a) PosInf = (if a = 0 then NaN else if 0 < a then PosInf else NegInf)"
| "float_mul (Finite a) NegInf = (if a = 0 then NaN else if 0 < a then NegInf else PosInf)"
| "float_mul PosInf (Finite b) = (if b = 0 then NaN else if 0 < b then PosInf else NegInf)"
| "float_mul NegInf (Finite b) = (if b = 0 then NaN else if 0 < b then NegInf else PosInf)"
| "float_mul PosInf PosInf = PosInf"
| "float_mul PosInf NegInf = NegInf"
| "float_mul NegInf PosInf = NegInf"
| "float_mul NegInf NegInf = PosInf"

fun float_truediv :: "py_float \<Rightarrow> py_float \<Rightarrow> py_error + py_float" where
  "float_truediv x (Finite b) =
     (if b = 0 then Inl (ZeroDivisionError ''float division by zero'')
      else case x of
             Finite a \<Rightarrow> Inr (round_to_double (a / b))
           | NaN \<Rightarrow> Inr NaN
           | PosInf \<Rightarrow> Inr (if 0 < b then PosInf else NegInf)
           | NegInf \<Rightarrow> Inr (if 0 < b then NegInf else PosInf))"
| "float_truediv x NaN = Inr NaN"
| "float_truediv (Finite a) y = Inr (Finite 0)"
| "float_truediv x y = Inr NaN"

text \<open>\<open>int * float\<close>: the \<open>int\<close> is converted, then the floats are multiplied.\<close>

definition int_mul_float :: "int \<Rightarrow> py_float \<Rightarrow> py_error + py_float" where
  "int_mul_float n x =
     (case float_of_int n of Inl e \<Rightarrow> Inl e | Inr y \<Rightarrow> Inr (float_mul y x))"

text \<open>\<open>int(x)\<close> on a float truncates towards zero.\<close>

definition float_to_int :: "py_float \<Rightarrow> py_error + int" where
  "float_to_int x =
     (case x of
        Finite q \<Rightarrow> Inr (if 0 \<le> q then \<lfloor>q\<rfloor> else \<lceil>q\<rceil>)
      | NaN \<Rightarrow> Inl (ValueError ''cannot convert float NaN to integer'')
      | _ \<Rightarrow> Inl (OverflowError ''cannot convert float infinity to integer''))"

definition math_ceil :: "py_float \<Rightarrow> py_error + int" where
  "math_ceil x =
     (case x of
        Finite q \<Rightarrow> Inr \<lceil>q\<rceil>
      | NaN \<Rightarrow> Inl (ValueError ''cannot convert float NaN to integer'')
      | _ \<Rightarrow> Inl (OverflowError ''cannot convert float infinity to integer''))"

subsection \<open>UTF-8\<close>

text \<open>
  \<open>str.encode("utf-8")\<close>: one to four bytes per code point; a surrogate code point
  cannot be encoded and raises.
\<close>

definition utf8_encode_char :: "nat \<Rightarrow> py_error + nat list" where
  "utf8_encode_char c =
     (if c < 0x80 then Inr [c]
      else if c < 0x800 then Inr [0xC0 + c div 64, 0x80 + c mod 64]
      else if 0xD800 \<le> c \<and> c \<le> 0xDFFF then
        Inl (UnicodeEncodeError ''surrogates not allowed'')
      else if c < 0x10000 then
        Inr [0xE0 + c div 4096, 0x80 + (c div 64) mod 64, 0x80 + c mod 64]
      else
        Inr [0xF0 + c div 262144, 0x80 + (c div 4096) mod 64,
             0x80 + (c div 64) mod 64, 0x80 + c mod 64])"

fun utf8_encode :: "pystr \<Rightarrow> py_error + nat list" where
  "utf8_encode [] = Inr []"
| "utf8_encode (c # cs) =
     (case utf8_encode_char c of
        Inl e \<Rightarrow> Inl e
      | Inr bs \<Rightarrow> (case utf8_encode cs of Inl e \<Rightarrow> Inl e | Inr rest \<Rightarrow> Inr (bs @ rest)))"

text \<open>
  The byte length the specification speaks of: the number of bytes of the UTF-8 form
  of a string, code point by code point.
\<close>

definition utf8_width :: "nat \<Rightarrow> nat" where
  "utf8_width c = (if c < 0x80 then 1 else if c < 0x800 then 2
                   else if c < 0x10000 then 3 else 4)"

definition byte_length :: "pystr \<Rightarrow> nat" where
  "byte_length s = sum_list (map utf8_width s)"

definition is_ascii :: "pystr \<Rightarrow> bool" where
  "is_ascii s = list_all (\<lambda>c. c < 0x80) s"

section \<open>utils/token\_count.py\<close>

text \<open>
  \<open>_heuristic_token_count\<close>: zero on the empty string, else
  \<open>max(math.ceil(len(text) / 4), 0)\<close>. The quotient is a float, obtained by the
  true division of two \<open>int\<close>s, and \<open>math.ceil\<close> turns it back into an \<open>int\<close>.
  \<open>count_tokens\<close> applies it to \<open>text or ""\<close> and does not look at the model.
\<close>

definition heuristic_token_count :: "pystr \<Rightarrow> py_error + int" where
  "heuristic_token_count text =
     (if text = [] then Inr 0
      else case int_truediv (int (length text)) 4 of
             Inl e \<Rightarrow> Inl e
           | Inr q \<Rightarrow> (case math_ceil q of
                         Inl e \<Rightarrow> Inl e
                       | Inr approx_tokens \<Rightarrow> Inr (max approx_tokens 0)))"

definition count_tokens :: "pystr option \<Rightarrow> string option \<Rightarrow> py_error + int" where
  "count_tokens text model =
     heuristic_token_count (case text of None \<Rightarrow> [] | Some t \<Rightarrow> t)"

section \<open>utils/estimate\_repo\_tokens.py\<close>

type_synonym files_map = "(string \<times> pystr option) list"

record per_file_entry =
  path :: string
  size_bytes :: int
  tokens :: int

record budget_result =
  model :: "string option"
  max_context_tokens :: "int option"
  overhead_percent :: py_float
  sum_file_tokens :: int
  overhead_tokens :: int
  total_tokens :: int
  files :: "per_file_entry list"

record payload = budget_result +
  within_limit :: bool

record printed =
  printed_model :: "string option"
  printed_max_context_tokens :: "int option"
  printed_overhead_percent :: py_float
  printed_sum_file_tokens :: int
  printed_overhead_tokens :: int
  printed_total_tokens :: int
  printed_within_limit :: bool
  printed_file_count :: nat

record args =
  args_dir :: "string option"
  args_repo :: "string option"
  args_token :: "string option"
  args_include :: "string list option"
  args_exclude :: "string list option"
  args_max_size :: int
  args_model :: "string option"
  args_max_context_tokens :: int
  args_overhead_percent :: py_float
  args_out :: "string option"

text \<open>
  What \<open>print\<close> is given: the summary, as JSON with ASCII characters only, or the
  warning about a report that could not be written, which holds the path and the
  message of the exception as they are.
\<close>

datatype stdout_text = SummaryText printed | WarningText string string

text \<open>
  What the program reads from its surroundings. The two crawlers return a dictionary
  that may or may not have the key \<open>files\<close>, or raise; writing the report to a path
  succeeds (\<open>None\<close>) or raises with a message; \<open>print\<close> writes its text to standard
  output (\<open>None\<close>) or raises, as it does on a text that the encoding of standard
  output cannot encode.
\<close>

record world =
  crawl_local_files ::
    "string \<Rightarrow> string set option \<Rightarrow> string set option \<Rightarrow> int \<Rightarrow> py_error + files_map option"
  crawl_github_files ::
    "string \<Rightarrow> string option \<Rightarrow> int \<Rightarrow> string set option \<Rightarrow> string set option
       \<Rightarrow> py_error + files_map option"
  environ_GITHUB_TOKEN :: "string option"
  write_output :: "string \<Rightarrow> string option"
  print_raises :: "stdout_text \<Rightarrow> py_error option"

text \<open>The file and network operations and the output, in the order they happen.\<close>

datatype io_event =
    CrawlLocal string
  | CrawlGithub string
  | Stdout printed
  | FileWritten string payload
  | WarningPrinted string string

definition files_of :: "py_error + files_map option \<Rightarrow> py_error + files_map" where
  "files_of r = (case r of Inl e \<Rightarrow> Inl e | Inr None \<Rightarrow> Inr [] | Inr (Some fs) \<Rightarrow> Inr fs)"

definition gather_files ::
  "world \<Rightarrow> string option \<Rightarrow> string option \<Rightarrow> string set option \<Rightarrow> string set option
     \<Rightarrow> int \<Rightarrow> string option \<Rightarrow> io_event list \<times> (py_error + files_map)" where
  "gather_files w source_path repo_url include_patterns exclude_patterns max_file_size
       github_token =
     (if truthy source_path then
        ([CrawlLocal (the source_path)],
         files_of (crawl_local_files w (the source_path) include_patterns exclude_patterns
                     max_file_size))
      else if truthy repo_url then
        ([CrawlGithub (the repo_url)],
         files_of (crawl_github_files w (the repo_url) github_token max_file_size
                     include_patterns exclude_patterns))
      else ([], Inl (ValueError ''Either source_path or repo_url must be provided.'')))"

text \<open>The loop over \<open>files.items()\<close>, with the two accumulators it updates.\<close>

fun estimate_loop ::
  "files_map \<Rightarrow> string option \<Rightarrow> per_file_entry list \<times> int
     \<Rightarrow> py_error + per_file_entry list \<times> int" where
  "estimate_loop [] mdl acc = Inr acc"
| "estimate_loop ((file_path, content) # rest) mdl (per_file, sum_tokens) =
     (case count_tokens content mdl of
        Inl e \<Rightarrow> Inl e
      | Inr tks \<Rightarrow>
         (case (case content of
                  None \<Rightarrow> Inr 0
                | Some c \<Rightarrow> (case utf8_encode c of Inl e \<Rightarrow> Inl e
                             | Inr bs \<Rightarrow> Inr (int (length bs)))) of
            Inl e \<Rightarrow> Inl e
          | Inr sz \<Rightarrow>
              estimate_loop rest mdl
                (per_file @ [\<lparr>path = file_path, size_bytes = sz, tokens = tks\<rparr>],
                 sum_tokens + tks)))"

text \<open>The body of \<open>estimate_repo_tokens\<close> once the files are gathered.\<close>

definition estimate_from_files ::
  "files_map \<Rightarrow> string option \<Rightarrow> py_float \<Rightarrow> py_error + budget_result" where
  "estimate_from_files fs mdl pct =
     (case estimate_loop fs mdl ([], 0) of
        Inl e \<Rightarrow> Inl e
      | Inr (per_file, sum_tokens) \<Rightarrow>
         (case float_truediv pct (Finite 100) of
            Inl e \<Rightarrow> Inl e
          | Inr fraction \<Rightarrow>
             (case int_mul_float sum_tokens fraction of
                Inl e \<Rightarrow> Inl e
              | Inr product \<Rightarrow>
                 (case float_to_int product of
                    Inl e \<Rightarrow> Inl e
                  | Inr overhead \<Rightarrow>
                      Inr \<lparr>model = mdl, max_context_tokens = None,
                           overhead_percent = pct, sum_file_tokens = sum_tokens,
                           overhead_tokens = overhead,
                           total_tokens = sum_tokens + overhead,
                           files = per_file\<rparr>))))"

definition estimate_repo_tokens ::
  "world \<Rightarrow> string option \<Rightarrow> string option \<Rightarrow> string set option \<Rightarrow> string set option
     \<Rightarrow> int \<Rightarrow> string option \<Rightarrow> py_float \<Rightarrow> string option
     \<Rightarrow> io_event list \<times> (py_error + budget_result)" where
  "estimate_repo_tokens w pth repo include_patterns exclude_patterns max_file_size mdl pct
       github_token =
     (case gather_files w pth repo include_patterns exclude_patterns max_file_size
             github_token of
        (io, Inl e) \<Rightarrow> (io, Inl e)
      | (io, Inr fs) \<Rightarrow> (io, estimate_from_files fs mdl pct))"

definition pattern_set :: "string list option \<Rightarrow> string set option" where
  "pattern_set ps = (case ps of None \<Rightarrow> None | Some [] \<Rightarrow> None | Some xs \<Rightarrow> Some (set xs))"

definition run_estimate_cli :: "world \<Rightarrow> args \<Rightarrow> io_event list \<times> (py_error + int)" where
  "run_estimate_cli w a =
     (let github_token =
            (if truthy (args_repo a) then py_or (args_token a) (environ_GITHUB_TOKEN w)
             else None)
      in case estimate_repo_tokens w (args_dir a) (args_repo a)
                (pattern_set (args_include a)) (pattern_set (args_exclude a))
                (args_max_size a) (args_model a) (args_overhead_percent a) github_token of
           (io, Inl e) \<Rightarrow> (io, Inl e)
         | (io, Inr result) \<Rightarrow>
            (let ok = (total_tokens result \<le> args_max_context_tokens a);
                 pl = \<lparr>model = model result,
                       max_context_tokens = Some (args_max_context_tokens a),
                       overhead_percent = overhead_percent result,
                       sum_file_tokens = sum_file_tokens result,
                       overhead_tokens = overhead_tokens result,
                       total_tokens = total_tokens result,
                       files = files result,
                       within_limit = ok\<rparr>;
                 pr = \<lparr>printed_model = model pl,
                       printed_max_context_tokens = max_context_tokens pl,
                       printed_overhead_percent = overhead_percent pl,
                       printed_sum_file_tokens = sum_file_tokens pl,
                       printed_overhead_tokens = overhead_tokens pl,
                       printed_total_tokens = total_tokens pl,
                       printed_within_limit = within_limit pl,
                       printed_file_count = length (files result)\<rparr>;
                 code = (if ok then 0 else 2)
             in case print_raises w (SummaryText pr) of
                  Some e \<Rightarrow> (io, Inl e)
                | None \<Rightarrow>
                   (let io1 = io @ [Stdout pr]
                    in if truthy (args_out a) then
                         (case write_output w (the (args_out a)) of
                            None \<Rightarrow> (io1 @ [FileWritten (the (args_out a)) pl], Inr code)
                          | Some msg \<Rightarrow>
                             (case print_raises w (WarningText (the (args_out a)) msg) of
                                Some e \<Rightarrow> (io1, Inl e)
                              | None \<Rightarrow>
                                 (io1 @ [WarningPrinted (the (args_out a)) msg], Inr code)))
                       else (io1, Inr code))))"

text \<open>
  What one round of the loop adds to the running sum, \<open>None\<close> when the round raises.
\<close>

definition file_tokens :: "string option \<Rightarrow> string \<times> pystr option \<Rightarrow> int option" where
  "file_tokens mdl f =
     (case count_tokens (snd f) mdl of
        Inl e \<Rightarrow> None
      | Inr t \<Rightarrow> (case snd f of
                    None \<Rightarrow> Some t
                  | Some c \<Rightarrow> (case utf8_encode c of Inl e \<Rightarrow> None | Inr bs \<Rightarrow> Some t)))"

section \<open>main.py\<close>

text \<open>
  The command \<open>estimate-repo\<close>. Its parser has a required group of two mutually
  exclusive options, \<open>--repo\<close> and \<open>--dir\<close>. A command line is given by the
  occurrences of these two options, in their order, and by the values of the other
  options, absent ones taking their defaults. The parser goes through the occurrences:
  an option met after the other one of the group is an error, and so is the end of the
  command line when none was met; a repeated option keeps its last value. Options
  written before the name of the command belong to the other command of \<open>main\<close>; the
  parser of \<open>estimate-repo\<close> overwrites them with its own values and defaults, so they
  are no occurrences here. The values of the options with a type are taken as converted.
\<close>

datatype source_flag = FlagRepo | FlagDir

record cli =
  cli_sources :: "(source_flag \<times> string) list"
  cli_token :: "string option"
  cli_include :: "string list option"
  cli_exclude :: "string list option"
  cli_max_size :: "int option"
  cli_model :: "string option"
  cli_max_context_tokens :: "int option"
  cli_overhead_percent :: "py_float option"
  cli_out :: "string option"

fun parse_sources ::
  "(source_flag \<times> string) list \<Rightarrow> string option \<times> string option
     \<Rightarrow> py_error + string option \<times> string option" where
  "parse_sources [] (d, r) =
     (if d = None \<and> r = None then
        Inl (UsageError ''one of the arguments --repo --dir is required'')
      else Inr (d, r))"
| "parse_sources ((FlagDir, v) # rest) (d, r) =
     (if r \<noteq> None then
        Inl (UsageError ''argument --dir: not allowed with argument --repo'')
      else parse_sources rest (Some v, r))"
| "parse_sources ((FlagRepo, v) # rest) (d, r) =
     (if d \<noteq> None then
        Inl (UsageError ''argument --repo: not allowed with argument --dir'')
      else parse_sources rest (d, Some v))"

definition parse_args :: "cli \<Rightarrow> py_error + args" where
  "parse_args c =
     (case parse_sources (cli_sources c) (None, None) of
        Inl e \<Rightarrow> Inl e
      | Inr (d, r) \<Rightarrow>
          Inr \<lparr>args_dir = d, args_repo = r, args_token = cli_token c,
               args_include = cli_include c, args_exclude = cli_exclude c,
               args_max_size = (case cli_max_size c of None \<Rightarrow> 100000 | Some n \<Rightarrow> n),
               args_model = (case cli_model c of None \<Rightarrow> Some ''gpt-5'' | Some m \<Rightarrow> Some m),
               args_max_context_tokens =
                 (case cli_max_context_tokens c of None \<Rightarrow> 200000 | Some n \<Rightarrow> n),
               args_overhead_percent =
                 (case cli_overhead_percent c of None \<Rightarrow> Finite 3 | Some x \<Rightarrow> x),
               args_out = cli_out c\<rparr>)"

text \<open>
  \<open>main\<close> on a command line of the command \<open>estimate-repo\<close>: the arguments are
  parsed, \<open>run_estimate_cli\<close> is called, and \<open>SystemExit\<close> is raised with the code it
  returns, which is the value \<open>Inr code\<close> here. The other command of \<open>main\<close>, the
  generation of a tutorial, is not part of the estimator.
\<close>

definition main :: "world \<Rightarrow> cli \<Rightarrow> io_event list \<times> (py_error + int)" where
  "main w c =
     (case parse_args c of
        Inl e \<Rightarrow> ([], Inl e)
      | Inr a \<Rightarrow> run_estimate_cli w a)"


section \<open>Concrete scenarios\<close>

text \<open>
  The end-to-end scenario of the specification: a local directory with two text files of
  400 and 800 bytes, the default overhead of 3 percent, and a context window given by
  the caller. The parameter of \<open>scenario_world\<close> is the outcome of writing the report;
  every \<open>print\<close> succeeds there. \<open>ascii_stdout\<close> is a standard output with the ASCII
  encoding: the summary is printed, and a warning is printed when the path and the
  message are ASCII, else \<open>print\<close> raises. \<open>accented_path\<close> is the file name
  \<open>e.json\<close> with an acute accent on the first letter, in UTF-8.
\<close>

definition scenario_files :: files_map where
  "scenario_files =
     [(''a.py'', Some (replicate 400 97)), (''b.py'', Some (replicate 800 98))]"

definition scenario_world :: "string option \<Rightarrow> world" where
  "scenario_world wr =
     \<lparr>crawl_local_files = (\<lambda>p i e m. Inr (Some scenario_files)),
      crawl_github_files = (\<lambda>u t m i e. Inl (CrawlerError ''offline'')),
      environ_GITHUB_TOKEN = None,
      write_output = (\<lambda>p. wr),
      print_raises = (\<lambda>t. None)\<rparr>"

definition ascii_stdout :: "stdout_text \<Rightarrow> py_error option" where
  "ascii_stdout t =
     (case t of
        SummaryText pr \<Rightarrow> None
      | WarningText out msg \<Rightarrow>
          (if list_all (\<lambda>c. (of_char c :: nat) < 0x80) (out @ msg) then None
           else Some (UnicodeEncodeError ''ordinal not in range(128)'')))"

definition accented_path :: string where
  "accented_path = CHR 0xC3 # CHR 0xA9 # ''.json''"

definition scenario_cli :: "(source_flag \<times> string) list \<Rightarrow> int \<Rightarrow> cli" where
  "scenario_cli srcs mx =
     \<lparr>cli_sources = srcs, cli_token = None, cli_include = None, cli_exclude = None,
      cli_max_size = None, cli_model = None, cli_max_context_tokens = Some mx,
      cli_overhead_percent = None, cli_out = None\<rparr>"

definition scenario_args :: "int \<Rightarrow> string option \<Rightarrow> args" where
  "scenario_args mx out =
     \<lparr>args_dir = Some ''repo'', args_repo = None, args_token = None,
      args_include = None, args_exclude = None, args_max_size = 100000,
      args_model = Some ''gpt-5'', args_max_context_tokens = mx,
      args_overhead_percent = Finite 3, args_out = out\<rparr>"

definition scenario_result :: budget_result where
  "scenario_result =
     \<lparr>model = Some ''gpt-5'', max_context_tokens = None,
      overhead_percent = Finite 3, sum_file_tokens = 300,
      overhead_tokens = 9, total_tokens = 309,
      files = [\<lparr>path = ''a.py'', size_bytes = 400, tokens = 100\<rparr>,
               \<lparr>path = ''b.py'', size_bytes = 800, tokens = 200\<rparr>]\<rparr>"

definition scenario_payload :: "int \<Rightarrow> payload" where
  "scenario_payload mx =
     \<lparr>model = Some ''gpt-5'', max_context_tokens = Some mx,
      overhead_percent = Finite 3, sum_file_tokens = 300,
      overhead_tokens = 9, total_tokens = 309,
      files = [\<lparr>path = ''a.py'', size_bytes = 400, tokens = 100\<rparr>,
               \<lparr>path = ''b.py'', size_bytes = 800, tokens = 200\<rparr>],
      within_limit = (309 \<le> mx)\<rparr>"

definition scenario_printed :: "int \<Rightarrow> printed" where
  "scenario_printed mx =
     \<lparr>printed_model = Some ''gpt-5'', printed_max_context_tokens = Some mx,
      printed_overhead_percent = Finite 3, printed_sum_file_tokens = 300,
      printed_overhead_tokens = 9, printed_total_tokens = 309,
      printed_within_limit = (309 \<le> mx), printed_file_count = 2\<rparr>"

section \<open>Powers of two and the binary logarithm\<close>

lemma pow2_pos [simp]: "0 < pow2 e"
  by (simp add: pow2_def)

lemma pow2_nonneg [simp]: "0 \<le> pow2 e"
  by (simp add: pow2_def)

lemma pow2_neq0 [simp]: "pow2 e \<noteq> 0"
  by (simp add: pow2_def)

lemma pow2_add: "pow2 (a + b) = pow2 a * pow2 b"
  by (simp add: pow2_def power_int_add)

lemma pow2_diff: "pow2 (a - b) = pow2 a / pow2 b"
  by (simp add: pow2_def power_int_diff)

lemma pow2_nat: "0 \<le> e \<Longrightarrow> pow2 e = 2 ^ nat e"
  by (simp add: pow2_def power_int_nonneg_exp)

lemma pow2_mono: "a \<le> b \<Longrightarrow> pow2 a \<le> pow2 b"
  by (simp add: pow2_def power_int_increasing)

lemma pow2_strict_mono: "a < b \<Longrightarrow> pow2 a < pow2 b"
  by (simp add: pow2_def power_int_strict_increasing)

lemma pow2_le_iff: "pow2 a \<le> pow2 b \<longleftrightarrow> a \<le> b"
  by (meson linorder_not_less pow2_mono pow2_strict_mono)

lemma pow2_less_iff: "pow2 a < pow2 b \<longleftrightarrow> a < b"
  by (meson linorder_not_less pow2_mono pow2_strict_mono)

lemma pow2_Suc: "pow2 (a + 1) = 2 * pow2 a"
  by (simp add: pow2_def power_int_add_1)

lemma bitlen_pow2_bounds:
  assumes "0 < n"
  shows "pow2 (bitlen n - 1) \<le> of_int n" and "of_int n < pow2 (bitlen n)"
proof -
  from assms have b1: "1 \<le> bitlen n"
    by (simp add: bitlen_alt_def)
  from bitlen_bounds [OF assms] have lo: "2 ^ nat (bitlen n - 1) \<le> n" and hi: "n < 2 ^ nat (bitlen n)"
    by simp_all
  from lo have "rat_of_int (2 ^ nat (bitlen n - 1)) \<le> of_int n"
    by (simp only: of_int_le_iff)
  with b1 show "pow2 (bitlen n - 1) \<le> of_int n"
    by (simp add: pow2_nat)
  from hi have "rat_of_int n < of_int (2 ^ nat (bitlen n))"
    by (simp only: of_int_less_iff)
  with b1 show "of_int n < pow2 (bitlen n)"
    by (simp add: pow2_nat)
qed

lemma ilog2_bounds:
  assumes "0 < q"
  shows "pow2 (ilog2 q) \<le> q" and "q < pow2 (ilog2 q + 1)"
proof -
  obtain n d where nd: "quotient_of q = (n, d)"
    by (cases "quotient_of q")
  then have d: "0 < d" and q: "q = of_int n / of_int d"
    by (simp_all add: quotient_of_denom_pos quotient_of_div)
  with assms have n: "0 < n"
    by (simp add: zero_less_divide_iff)
  define k where "k = bitlen n - bitlen d"
  have il: "ilog2 q = (if pow2 k \<le> q then k else k - 1)"
    by (simp add: ilog2_def nd k_def Let_def)
  note bn = bitlen_pow2_bounds [OF n] and bd = bitlen_pow2_bounds [OF d]
  have dpos: "0 < rat_of_int d" and npos: "0 < rat_of_int n"
    using d n by simp_all
  have "q < pow2 (bitlen n) / pow2 (bitlen d - 1)"
    unfolding q using bn(2) bd(1) dpos npos
    by (intro frac_less) simp_all
  also have "\<dots> = pow2 (k + 1)"
    by (simp add: k_def flip: pow2_diff) (simp add: algebra_simps)
  finally have up: "q < pow2 (k + 1)" .
  have "pow2 (k - 1) = pow2 (bitlen n - 1) / pow2 (bitlen d)"
    by (simp add: k_def flip: pow2_diff) (simp add: algebra_simps)
  also have "\<dots> \<le> q"
    unfolding q using bn(1) less_imp_le [OF bd(2)] dpos npos
    by (intro frac_le) simp_all
  finally have lo: "pow2 (k - 1) \<le> q" .
  show "pow2 (ilog2 q) \<le> q"
    using lo by (simp add: il)
  show "q < pow2 (ilog2 q + 1)"
    using up by (auto simp add: il not_le)
qed

lemma ilog2_unique:
  assumes "pow2 k \<le> q" and "q < pow2 (k + 1)"
  shows "ilog2 q = k"
proof -
  have q: "0 < q"
    using assms(1) pow2_pos [of k] by linarith
  note b = ilog2_bounds [OF q]
  have "pow2 k < pow2 (ilog2 q + 1)"
    using assms(1) b(2) by linarith
  then have 1: "k \<le> ilog2 q"
    by (simp add: pow2_less_iff)
  have "pow2 (ilog2 q) < pow2 (k + 1)"
    using assms(2) b(1) by linarith
  then have "ilog2 q \<le> k"
    by (simp add: pow2_less_iff)
  with 1 show ?thesis by simp
qed

section \<open>Rounding to binary64\<close>

lemma round_half_even_cases:
  "round_half_even x = \<lfloor>x\<rfloor> \<and> x - of_int \<lfloor>x\<rfloor> \<le> 1 / 2 \<or>
   round_half_even x = \<lfloor>x\<rfloor> + 1 \<and> 1 / 2 \<le> x - of_int \<lfloor>x\<rfloor>"
  by (auto simp add: round_half_even_def Let_def)

lemma round_half_even_of_int [simp]: "round_half_even (of_int n) = n"
  by (simp add: round_half_even_def)

lemma round_half_even_error: "\<bar>of_int (round_half_even x) - x\<bar> \<le> 1 / 2"
proof -
  have "of_int \<lfloor>x\<rfloor> \<le> x" "x < of_int \<lfloor>x\<rfloor> + 1"
    by linarith+
  with round_half_even_cases [of x] show ?thesis
    by (elim disjE conjE) (simp_all add: abs_le_iff)
qed

lemma round_half_even_le: "x \<le> of_int n \<Longrightarrow> round_half_even x \<le> n"
proof -
  assume a: "x \<le> of_int n"
  then have f: "\<lfloor>x\<rfloor> \<le> n"
    by (simp add: floor_le_iff) 
  show ?thesis
  proof (cases "round_half_even x = \<lfloor>x\<rfloor>")
    case True
    with f show ?thesis by simp
  next
    case False
    with round_half_even_cases [of x]
    have r: "round_half_even x = \<lfloor>x\<rfloor> + 1" and h: "1 / 2 \<le> x - of_int \<lfloor>x\<rfloor>"
      by auto
    from h a have "rat_of_int \<lfloor>x\<rfloor> < of_int n"
      by linarith
    then have "\<lfloor>x\<rfloor> < n"
      by (simp only: of_int_less_iff)
    with r show ?thesis by simp
  qed
qed

lemma round_half_even_ge: "of_int n \<le> x \<Longrightarrow> n \<le> round_half_even x"
proof -
  assume "of_int n \<le> x"
  then have "n \<le> \<lfloor>x\<rfloor>"
    by (simp add: le_floor_iff)
  with round_half_even_cases [of x] show ?thesis
    by auto
qed

lemma expo_ge: "ilog2 q - 52 \<le> expo q" "- 1074 \<le> expo q"
  by (simp_all add: expo_def)

lemma scaled_less:
  assumes "0 < q"
  shows "q / pow2 (expo q) < 2 ^ 53"
proof -
  have "q < pow2 (ilog2 q + 1)"
    by (rule ilog2_bounds [OF assms])
  also have "\<dots> \<le> pow2 (expo q + 53)"
    using expo_ge(1) [of q] by (intro pow2_mono) simp
  also have "\<dots> = pow2 (expo q) * 2 ^ 53"
    by (simp add: pow2_add pow2_nat)
  finally show ?thesis
    by (simp add: pos_divide_less_eq mult.commute)
qed

lemma round_pos_nonneg:
  assumes "0 < q"
  shows "0 \<le> round_pos q"
proof -
  have "rat_of_int 0 \<le> q / pow2 (expo q)"
    using assms by simp
  then have "0 \<le> round_half_even (q / pow2 (expo q))"
    by (rule round_half_even_ge)
  then show ?thesis
    by (simp add: round_pos_def)
qed

lemma round_pos_le:
  assumes "0 < q"
  shows "round_pos q \<le> pow2 (expo q + 53)"
proof -
  have "q / pow2 (expo q) \<le> rat_of_int (2 ^ 53)"
    using scaled_less [OF assms] by simp
  then have "round_half_even (q / pow2 (expo q)) \<le> 2 ^ 53"
    by (rule round_half_even_le)
  then have "rat_of_int (round_half_even (q / pow2 (expo q))) \<le> 2 ^ 53"
    by (metis of_int_le_iff of_int_numeral of_int_power)
  then have "round_pos q \<le> 2 ^ 53 * pow2 (expo q)"
    unfolding round_pos_def by (intro mult_right_mono) simp_all
  then show ?thesis
    by (simp add: pow2_add pow2_nat mult.commute)
qed

lemma round_pos_error:
  "\<bar>round_pos q - q\<bar> \<le> pow2 (expo q - 1)"
proof -
  let ?e = "expo q"
  have "round_pos q - q = (of_int (round_half_even (q / pow2 ?e)) - q / pow2 ?e) * pow2 ?e"
    by (simp add: round_pos_def left_diff_distrib)
  then have "\<bar>round_pos q - q\<bar> = \<bar>of_int (round_half_even (q / pow2 ?e)) - q / pow2 ?e\<bar> * pow2 ?e"
    by (simp only: abs_mult) simp
  also have "\<dots> \<le> 1 / 2 * pow2 ?e"
    by (intro mult_right_mono round_half_even_error) simp
  also have "\<dots> = pow2 (?e - 1)"
    using pow2_Suc [of "?e - 1"] by simp
  finally show ?thesis .
qed

lemma half_ulp_le:
  assumes "0 < q"
  shows "pow2 (expo q - 1) \<le> q * pow2 (- 53) + pow2 (- 1075)"
proof (cases "- 1074 \<le> ilog2 q - 52")
  case True
  then have "expo q = ilog2 q - 52"
    by (simp add: expo_def)
  then have "pow2 (expo q - 1) = pow2 (ilog2 q) * pow2 (- 53)"
    by (simp flip: pow2_add)
  also have "\<dots> \<le> q * pow2 (- 53)"
    by (intro mult_right_mono ilog2_bounds(1) [OF assms]) simp
  finally show ?thesis
    using pow2_pos [of "- 1075"] by linarith
next
  case False
  then have "expo q = - 1074"
    by (simp add: expo_def)
  then have "pow2 (expo q - 1) = pow2 (- 1075)"
    by simp
  moreover have "0 \<le> q * pow2 (- 53)"
    using assms by simp
  ultimately show ?thesis
    by linarith
qed

lemma round_pos_exact:
  assumes m: "0 < m" "m < 2 ^ 53" and e: "- 1074 \<le> e"
  shows "round_pos (of_int m * pow2 e) = of_int m * pow2 e"
proof -
  let ?q = "rat_of_int m * pow2 e"
  have q: "0 < ?q"
    using m by simp
  have "rat_of_int m < 2 ^ 53"
    using m(2) by (metis of_int_less_iff of_int_numeral of_int_power)
  then have "?q < 2 ^ 53 * pow2 e"
    by (intro mult_strict_right_mono) simp_all
  also have "\<dots> = pow2 (e + 53)"
    by (simp add: pow2_add pow2_nat mult.commute)
  finally have "pow2 (ilog2 ?q) < pow2 (e + 53)"
    using ilog2_bounds(1) [OF q] by linarith
  then have "ilog2 ?q - 52 \<le> e"
    by (simp add: pow2_less_iff)
  with e have le: "expo ?q \<le> e"
    by (simp add: expo_def)
  define E where "E = expo ?q"
  define j where "j = nat (e - E)"
  have "pow2 e = pow2 (E + int j)"
    using le by (simp add: j_def E_def)
  also have "\<dots> = pow2 E * 2 ^ j"
    by (simp add: pow2_add pow2_nat)
  finally have pe: "pow2 e = pow2 E * 2 ^ j" .
  have "?q / pow2 E = rat_of_int (m * 2 ^ j)"
    by (simp add: pe)
  then have "round_half_even (?q / pow2 E) = m * 2 ^ j"
    by (simp only: round_half_even_of_int)
  then have "round_pos ?q = rat_of_int (m * 2 ^ j) * pow2 E"
    by (simp add: round_pos_def E_def)
  also have "\<dots> = ?q"
    by (simp add: pe)
  finally show ?thesis .
qed

lemma expo_le:
  assumes "0 < q" and "q < pow2 (k + 1)" and "- 1074 \<le> k - 52"
  shows "expo q \<le> k - 52"
proof -
  have "pow2 (ilog2 q) < pow2 (k + 1)"
    using ilog2_bounds(1) [OF assms(1)] assms(2) by linarith
  then have "ilog2 q \<le> k"
    by (simp add: pow2_less_iff)
  with assms(3) show ?thesis
    by (simp add: expo_def)
qed

lemma round_pos_less_overflow:
  assumes "0 < q" and "q < pow2 1023"
  shows "round_pos q < pow2 1024"
proof -
  have "expo q \<le> 1022 - 52"
    using assms by (intro expo_le) simp_all
  then have "pow2 (expo q + 53) \<le> pow2 1023"
    by (intro pow2_mono) simp
  also have "\<dots> < pow2 1024"
    by (intro pow2_strict_mono) simp
  finally show ?thesis
    using round_pos_le [OF assms(1)] by linarith
qed

lemma round_to_double_pos:
  assumes "0 < q" and "q < pow2 1023"
  shows "round_to_double q = Finite (round_pos q)"
  using assms round_pos_less_overflow [OF assms]
  by (simp add: round_to_double_def Let_def not_le)

lemma round_to_double_neg:
  assumes "q < 0" and "- q < pow2 1023"
  shows "round_to_double q = Finite (- round_pos (- q))"
  using assms round_pos_less_overflow [of "- q"]
  by (simp add: round_to_double_def Let_def not_le)

lemma round_to_double_finite:
  assumes "\<bar>q\<bar> < pow2 1023"
  obtains r where "round_to_double q = Finite r"
    and "\<bar>r - q\<bar> \<le> \<bar>q\<bar> * pow2 (- 53) + pow2 (- 1075)"
    and "0 \<le> q \<Longrightarrow> 0 \<le> r"
proof -
  consider "q = 0" | "0 < q" | "q < 0"
    by linarith
  then show ?thesis
  proof cases
    case 1
    show ?thesis
      by (rule that [of 0]) (simp_all add: 1 round_to_double_def)
  next
    case 2
    with assms have lt: "q < pow2 1023" by simp
    have "\<bar>round_pos q - q\<bar> \<le> \<bar>q\<bar> * pow2 (- 53) + pow2 (- 1075)"
      using round_pos_error [of q] half_ulp_le [OF 2] 2 by simp
    then show ?thesis
      using round_to_double_pos [OF 2 lt] round_pos_nonneg [OF 2]
      by (intro that [of "round_pos q"]) simp_all
  next
    case 3
    with assms have lt: "- q < pow2 1023" and p: "0 < - q" by simp_all
    have "\<bar>round_pos (- q) - (- q)\<bar> \<le> \<bar>q\<bar> * pow2 (- 53) + pow2 (- 1075)"
      using round_pos_error [of "- q"] half_ulp_le [OF p] 3 by simp
    then have "\<bar>- round_pos (- q) - q\<bar> \<le> \<bar>q\<bar> * pow2 (- 53) + pow2 (- 1075)"
      by (simp add: abs_le_iff)
    then show ?thesis
      using round_to_double_neg [OF 3 lt] 3
      by (intro that [of "- round_pos (- q)"]) simp_all
  qed
qed

lemma round_to_double_exact:
  assumes m: "\<bar>m\<bar> < 2 ^ 53" and e: "- 1074 \<le> e" "e \<le> 970"
  shows "round_to_double (of_int m * pow2 e) = Finite (of_int m * pow2 e)"
proof -
  have bound: "rat_of_int n * pow2 e < pow2 1023" if "0 < n" "n < 2 ^ 53" for n
  proof -
    have "rat_of_int n < 2 ^ 53"
      using that(2) by (metis of_int_less_iff of_int_numeral of_int_power)
    then have "rat_of_int n * pow2 e < 2 ^ 53 * pow2 e"
      by (intro mult_strict_right_mono) simp_all
    also have "\<dots> = pow2 (e + 53)"
      by (simp add: pow2_add pow2_nat mult.commute)
    also have "\<dots> \<le> pow2 1023"
      using e by (intro pow2_mono) simp
    finally show ?thesis .
  qed
  consider "m = 0" | "0 < m" | "m < 0"
    by linarith
  then show ?thesis
  proof cases
    case 1
    then show ?thesis by (simp add: round_to_double_def)
  next
    case 2
    with m have lt: "m < 2 ^ 53" by simp
    have pos: "0 < rat_of_int m * pow2 e"
      using 2 by simp
    show ?thesis
      using round_to_double_pos [OF pos bound [OF 2 lt]] round_pos_exact [OF 2 lt e(1)]
      by simp
  next
    case 3
    with m have lt: "- m < 2 ^ 53" and p: "0 < - m" by simp_all
    have neg: "rat_of_int m * pow2 e < 0"
      using 3 by (simp add: mult_less_0_iff)
    have eq: "- (rat_of_int m * pow2 e) = rat_of_int (- m) * pow2 e"
      by simp
    show ?thesis
      using round_to_double_neg [OF neg] bound [OF p lt] round_pos_exact [OF p lt e(1)]
      unfolding eq by simp
  qed
qed

lemma round_to_double_of_int:
  "\<bar>n\<bar> < 2 ^ 53 \<Longrightarrow> round_to_double (of_int n) = Finite (of_int n)"
  using round_to_double_exact [of n 0] by (simp add: pow2_def)

lemma round_to_double_quarter:
  "\<bar>n\<bar> < 2 ^ 53 \<Longrightarrow> round_to_double (of_int n / 4) = Finite (of_int n / 4)"
  using round_to_double_exact [of n "- 2"] by (simp add: pow2_def)

lemma round_to_double_eval:
  assumes "pow2 k \<le> q" and "q < pow2 (k + 1)" and "- 1022 \<le> k" and "k \<le> 1022"
  shows "round_to_double q =
           Finite (of_int (round_half_even (q / pow2 (k - 52))) * pow2 (k - 52))"
proof -
  have q: "0 < q"
    using assms(1) pow2_pos [of k] by linarith
  have "q < pow2 1023"
    using assms(2) pow2_mono [of "k + 1" 1023] assms(4) by simp
  moreover have "expo q = k - 52"
    using ilog2_unique [OF assms(1,2)] assms(3) by (simp add: expo_def)
  ultimately show ?thesis
    using round_to_double_pos [OF q] by (simp add: round_pos_def)
qed


subsection \<open>Evaluating roundings at given numbers\<close>

lemma floor_divide_numeral_rat:
  "\<lfloor>numeral a / numeral b :: rat\<rfloor> = numeral a div numeral b"
  by (metis floor_divide_of_int_eq of_int_numeral)

lemmas fl_eval = pow2_def round_half_even_def Let_def floor_divide_numeral_rat

lemma fl_3_percent:
  "round_to_double (3 / 100) = Finite (1080863910568919 / 36028797018963968)"
  using round_to_double_eval [of "- 6" "3 / 100"]
  by (simp add: fl_eval)

lemma fl_300_times:
  "round_to_double (300 * (1080863910568919 / 36028797018963968)) = Finite 9"
  using round_to_double_eval [of 3 "300 * (1080863910568919 / 36028797018963968)"]
  by (simp add: fl_eval)

lemma fl_29_percent:
  "round_to_double (29 / 100) = Finite (5224175567749775 / 18014398509481984)"
  using round_to_double_eval [of "- 2" "29 / 100"]
  by (simp add: fl_eval)

lemma fl_100_times:
  "round_to_double (100 * (5224175567749775 / 18014398509481984))
     = Finite (8162774324609023 / 281474976710656)"
  using round_to_double_eval [of 4 "100 * (5224175567749775 / 18014398509481984)"]
  by (simp add: fl_eval)

section \<open>The token estimate on strings of ordinary length\<close>

lemma ceiling_quarter: "\<lceil>rat_of_int n / 4\<rceil> = (n + 3) div 4"
proof -
  have "\<lceil>rat_of_int n / rat_of_int 4\<rceil> = - (- n div 4)"
    by (rule ceiling_divide_eq_div)
  then show ?thesis by simp
qed

lemma heuristic_token_count_exact:
  assumes "length text < 2 ^ 53"
  shows "heuristic_token_count text = Inr ((int (length text) + 3) div 4)"
proof (cases "text = []")
  case True
  then show ?thesis by (simp add: heuristic_token_count_def)
next
  case False
  have "\<bar>int (length text)\<bar> < 2 ^ 53"
    using assms by (simp add: of_nat_less_numeral_power_cancel_iff) 
  then have "round_to_double (rat_of_int (int (length text)) / 4)
        = Finite (rat_of_int (int (length text)) / 4)"
    by (rule round_to_double_quarter)
  then show ?thesis
    using False ceiling_quarter [of "int (length text)"]
    by (simp add: heuristic_token_count_def int_truediv_def math_ceil_def)
qed

lemma heuristic_token_count_total:
  assumes "length text < 2 ^ 1024"
  obtains n where "heuristic_token_count text = Inr n" and "0 \<le> n"
proof (cases "text = []")
  case True
  show ?thesis
    by (rule that [of 0]) (simp_all add: True heuristic_token_count_def)
next
  case False
  have "rat_of_nat (length text) < 2 ^ 1024"
    using assms by (metis of_nat_less_iff of_nat_numeral of_nat_power)
  then have "\<bar>rat_of_int (int (length text)) / 4\<bar> < pow2 1023"
    by (simp add: pow2_nat)
  then obtain r where "round_to_double (rat_of_int (int (length text)) / 4) = Finite r"
    by (rule round_to_double_finite)
  then have "heuristic_token_count text = Inr (max \<lceil>r\<rceil> 0)"
    using False by (simp add: heuristic_token_count_def int_truediv_def math_ceil_def)
  then show ?thesis
    by (rule that) simp
qed

section \<open>Claims about the token estimator\<close>

lemma byte_length_ascii: "is_ascii s \<Longrightarrow> byte_length s = length s"
  by (induction s) (simp_all add: is_ascii_def byte_length_def utf8_width_def)

lemma count_tokens_ascii:
  assumes "is_ascii s" and "length s < 2 ^ 53"
  shows "count_tokens (Some s) mdl = Inr \<lceil>rat_of_nat (byte_length s) / 4\<rceil>"
  using heuristic_token_count_exact [OF assms(2)] ceiling_quarter [of "int (length s)"]
  by (simp add: count_tokens_def byte_length_ascii [OF assms(1)])

text \<open>
  C1. The estimator is said to return the ceiling of a quarter of the UTF-8 byte length.
  The code divides the number of code points, \<open>len(text)\<close>, although its own comment
  announces the UTF-8 length. On five times the letter e with acute accent (code point
  233, two bytes each) it returns 2, and a quarter of the ten bytes rounds up to 3.
\<close>

theorem count_tokens_uses_code_points:
  "count_tokens (Some [233, 233, 233, 233, 233]) None = Inr 2 \<and>
   byte_length [233, 233, 233, 233, 233] = 10 \<and>
   \<lceil>rat_of_nat (byte_length [233, 233, 233, 233, 233]) / 4\<rceil> = 3"
proof -
  have "heuristic_token_count [233, 233, 233, 233, 233] = Inr 2"
    using heuristic_token_count_exact [of "[233, 233, 233, 233, 233]"] by simp
  moreover have "\<lceil>(10 :: rat) / 4\<rceil> = 3"
    using ceiling_quarter [of 10] by simp
  ultimately show ?thesis
    by (simp add: count_tokens_def byte_length_def utf8_width_def)
qed

text \<open>
  C8. The estimator is total: for every string, empty and non-ASCII ones included, and
  for absent content, \<open>count_tokens\<close> raises nothing and returns a non-negative
  integer. The length bound holds of every string a Python process can hold, whose
  length is at most \<open>sys.maxsize\<close>, below \<open>2 ^ 63\<close>.
\<close>

theorem count_tokens_total:
  assumes "length (case text of None \<Rightarrow> [] | Some t \<Rightarrow> t) < 2 ^ 1024"
  shows "\<exists>n. count_tokens text mdl = Inr n \<and> 0 \<le> n"
  using heuristic_token_count_total [OF assms]
  by (metis count_tokens_def)

theorem count_tokens_total_witness:
  "length (case Some [233, 20013, 128512] of None \<Rightarrow> [] | Some t \<Rightarrow> t) < (2 :: nat) ^ 1024 \<and>
   (\<exists>n. count_tokens (Some [233, 20013, 128512]) (Some ''gpt-5'') = Inr n \<and> 0 \<le> n)"
  using count_tokens_total [of "Some [233, 20013, 128512]" "Some ''gpt-5''"]
  by simp

text \<open>
  C9. The estimate does not depend on the model hint: any two model identifiers,
  \<open>None\<close> included, give the same result on the same text.
\<close>

theorem count_tokens_ignores_model:
  "count_tokens text m1 = count_tokens text m2"
  by (simp add: count_tokens_def)

section \<open>UTF-8 lengths\<close>

lemma utf8_encode_char_length:
  "utf8_encode_char c = Inr bs \<Longrightarrow> length bs = utf8_width c"
  by (auto simp add: utf8_encode_char_def utf8_width_def split: if_splits)

lemma utf8_encode_length:
  "utf8_encode s = Inr bs \<Longrightarrow> length bs = byte_length s"
proof (induction s arbitrary: bs)
  case Nil
  then show ?case by (simp add: byte_length_def)
next
  case (Cons c cs)
  from Cons.prems obtain b rest where
    b: "utf8_encode_char c = Inr b" and r: "utf8_encode cs = Inr rest" and bs: "bs = b @ rest"
    by (auto split: sum.splits)
  from Cons.IH [OF r] utf8_encode_char_length [OF b] bs show ?case
    by (simp add: byte_length_def)
qed

lemma utf8_encode_ascii: "is_ascii s \<Longrightarrow> utf8_encode s = Inr s"
  by (induction s) (simp_all add: is_ascii_def utf8_encode_char_def)

lemma utf8_width_ge1: "1 \<le> utf8_width c"
  by (simp add: utf8_width_def)

lemma length_le_byte_length: "length s \<le> byte_length s"
proof (induction s)
  case Nil
  then show ?case by (simp add: byte_length_def)
next
  case (Cons c cs)
  with utf8_width_ge1 [of c] show ?case
    by (simp add: byte_length_def)
qed

lemma non_ascii_longer: "\<not> is_ascii s \<Longrightarrow> length s < byte_length s"
proof (induction s)
  case Nil
  then show ?case by (simp add: is_ascii_def)
next
  case (Cons c cs)
  show ?case
  proof (cases "c < 0x80")
    case True
    with Cons.prems have "\<not> is_ascii cs"
      by (simp add: is_ascii_def)
    from Cons.IH [OF this] utf8_width_ge1 [of c] show ?thesis
      by (simp add: byte_length_def)
  next
    case False
    then have "2 \<le> utf8_width c"
      by (simp add: utf8_width_def)
    with length_le_byte_length [of cs] show ?thesis
      by (simp add: byte_length_def)
  qed
qed

section \<open>The loop over the files\<close>

lemma estimate_loop_step:
  assumes "estimate_loop ((p, c) # rest) mdl (pf, s) = Inr out"
  obtains tks sz where "count_tokens c mdl = Inr tks"
    and "case c of None \<Rightarrow> sz = 0
         | Some t \<Rightarrow> (\<exists>bs. utf8_encode t = Inr bs \<and> sz = int (length bs))"
    and "estimate_loop rest mdl
           (pf @ [\<lparr>path = p, size_bytes = sz, tokens = tks\<rparr>], s + tks) = Inr out"
  using assms by (auto split: sum.splits option.splits)

lemma estimate_loop_entries:
  assumes "estimate_loop fs mdl (pf, s) = Inr (pf', s')"
  shows "\<exists>es. pf' = pf @ es \<and> length es = length fs \<and>
           s' = s + sum_list (map tokens es) \<and>
           (\<forall>i < length fs.
              path (es ! i) = fst (fs ! i) \<and>
              count_tokens (snd (fs ! i)) mdl = Inr (tokens (es ! i)) \<and>
              size_bytes (es ! i) =
                (case snd (fs ! i) of None \<Rightarrow> 0 | Some t \<Rightarrow> int (byte_length t)))"
  using assms
proof (induction fs arbitrary: pf s)
  case Nil
  then show ?case by simp
next
  case (Cons f rest)
  obtain p c where f: "f = (p, c)"
    by (cases f)
  from Cons.prems [unfolded f] obtain tks sz where
    t: "count_tokens c mdl = Inr tks"
    and z: "case c of None \<Rightarrow> sz = 0
            | Some t \<Rightarrow> (\<exists>bs. utf8_encode t = Inr bs \<and> sz = int (length bs))"
    and r: "estimate_loop rest mdl
              (pf @ [\<lparr>path = p, size_bytes = sz, tokens = tks\<rparr>], s + tks) = Inr (pf', s')"
    by (rule estimate_loop_step)
  let ?e = "\<lparr>path = p, size_bytes = sz, tokens = tks\<rparr>"
  from Cons.IH [OF r] obtain es where
    es: "pf' = (pf @ [?e]) @ es" "length es = length rest"
        "s' = s + tks + sum_list (map tokens es)"
    and all: "\<forall>i < length rest.
              path (es ! i) = fst (rest ! i) \<and>
              count_tokens (snd (rest ! i)) mdl = Inr (tokens (es ! i)) \<and>
              size_bytes (es ! i) =
                (case snd (rest ! i) of None \<Rightarrow> 0 | Some t \<Rightarrow> int (byte_length t))"
    by blast
  have sz: "sz = (case c of None \<Rightarrow> 0 | Some t \<Rightarrow> int (byte_length t))"
    using z by (auto split: option.splits dest: utf8_encode_length)
  have "\<forall>i < length (f # rest).
              path ((?e # es) ! i) = fst ((f # rest) ! i) \<and>
              count_tokens (snd ((f # rest) ! i)) mdl = Inr (tokens ((?e # es) ! i)) \<and>
              size_bytes ((?e # es) ! i) =
                (case snd ((f # rest) ! i) of None \<Rightarrow> 0 | Some t \<Rightarrow> int (byte_length t))"
  proof (intro allI impI)
    fix i
    assume "i < length (f # rest)"
    then show "path ((?e # es) ! i) = fst ((f # rest) ! i) \<and>
              count_tokens (snd ((f # rest) ! i)) mdl = Inr (tokens ((?e # es) ! i)) \<and>
              size_bytes ((?e # es) ! i) =
                (case snd ((f # rest) ! i) of None \<Rightarrow> 0 | Some t \<Rightarrow> int (byte_length t))"
      using all t sz by (cases i) (simp_all add: f)
  qed
  with es show ?case
    by (intro exI [of _ "?e # es"]) simp
qed

lemma count_tokens_nonneg: "count_tokens c mdl = Inr t \<Longrightarrow> 0 \<le> t"
  by (auto simp add: count_tokens_def heuristic_token_count_def split: if_splits sum.splits)

lemma estimate_loop_sum:
  assumes "estimate_loop fs mdl (pf, s) = Inr (pf', s')"
  shows "(\<forall>f \<in> set fs. file_tokens mdl f \<noteq> None) \<and>
         s' = s + sum_list (map (the \<circ> file_tokens mdl) fs)"
  using assms
proof (induction fs arbitrary: pf s)
  case Nil
  then show ?case by simp
next
  case (Cons f rest)
  obtain p c where f: "f = (p, c)"
    by (cases f)
  from Cons.prems [unfolded f] obtain tks sz where
    t: "count_tokens c mdl = Inr tks"
    and z: "case c of None \<Rightarrow> sz = 0
            | Some t \<Rightarrow> (\<exists>bs. utf8_encode t = Inr bs \<and> sz = int (length bs))"
    and r: "estimate_loop rest mdl
              (pf @ [\<lparr>path = p, size_bytes = sz, tokens = tks\<rparr>], s + tks) = Inr (pf', s')"
    by (rule estimate_loop_step)
  from t z have "file_tokens mdl f = Some tks"
    by (auto simp add: file_tokens_def f split: option.splits)
  with Cons.IH [OF r] show ?case
    by simp
qed

lemma estimate_loop_succeeds:
  assumes "\<forall>f \<in> set fs. file_tokens mdl f \<noteq> None"
  shows "\<exists>pf'. estimate_loop fs mdl (pf, s) =
           Inr (pf', s + sum_list (map (the \<circ> file_tokens mdl) fs))"
  using assms
proof (induction fs arbitrary: pf s)
  case Nil
  then show ?case by simp
next
  case (Cons f rest)
  obtain p c where f: "f = (p, c)"
    by (cases f)
  from Cons.prems obtain tks where ft: "file_tokens mdl (p, c) = Some tks"
    by (auto simp add: f)
  then have t: "count_tokens c mdl = Inr tks"
    by (auto simp add: file_tokens_def split: sum.splits option.splits)
  from Cons.prems have rest: "\<forall>f \<in> set rest. file_tokens mdl f \<noteq> None"
    by simp
  show ?case
  proof (cases c)
    case None
    from Cons.IH [OF rest, of "pf @ [\<lparr>path = p, size_bytes = 0, tokens = tks\<rparr>]" "s + tks"]
    show ?thesis
      using t ft by (simp add: f None add.assoc)
  next
    case (Some content)
    with ft obtain bs where bs: "utf8_encode content = Inr bs"
      by (auto simp add: file_tokens_def split: sum.splits)
    let ?e = "\<lparr>path = p, size_bytes = int (length bs), tokens = tks\<rparr>"
    from Cons.IH [OF rest, of "pf @ [?e]" "s + tks"]
    show ?thesis
      using t ft bs by (simp add: f Some add.assoc)
  qed
qed

lemma estimate_loop_permuted:
  assumes "mset fs = mset fs'" and "estimate_loop fs mdl (pf, s) = Inr (pf1, s1)"
  shows "\<exists>pf2. estimate_loop fs' mdl (pf, s) = Inr (pf2, s1)"
proof -
  from estimate_loop_sum [OF assms(2)]
  have ok: "\<forall>f \<in> set fs. file_tokens mdl f \<noteq> None"
    and s1: "s1 = s + sum_list (map (the \<circ> file_tokens mdl) fs)"
    by simp_all
  from assms(1) have "set fs = set fs'"
    by (rule mset_eq_setD)
  with ok have ok': "\<forall>f \<in> set fs'. file_tokens mdl f \<noteq> None"
    by simp
  have "mset (map (the \<circ> file_tokens mdl) fs) = mset (map (the \<circ> file_tokens mdl) fs')"
    using assms(1) by (metis mset_map)
  then have "sum_list (map (the \<circ> file_tokens mdl) fs)
        = sum_list (map (the \<circ> file_tokens mdl) fs')"
    by (metis sum_mset_sum_list)
  with estimate_loop_succeeds [OF ok', of pf s] s1 show ?thesis
    by simp
qed

lemma estimate_from_files_cases:
  assumes "estimate_from_files fs mdl pct = Inr r"
  obtains pf s fraction product overhead where
    "estimate_loop fs mdl ([], 0) = Inr (pf, s)"
    "float_truediv pct (Finite 100) = Inr fraction"
    "int_mul_float s fraction = Inr product"
    "float_to_int product = Inr overhead"
    "r = \<lparr>model = mdl, max_context_tokens = None, overhead_percent = pct,
          sum_file_tokens = s, overhead_tokens = overhead,
          total_tokens = s + overhead, files = pf\<rparr>"
  using assms unfolding estimate_from_files_def
  by (auto split: sum.splits prod.splits)

lemma estimate_from_files_entries:
  assumes "estimate_from_files fs mdl pct = Inr r"
  shows "length (files r) = length fs \<and>
         (\<forall>i < length fs.
            path (files r ! i) = fst (fs ! i) \<and>
            count_tokens (snd (fs ! i)) mdl = Inr (tokens (files r ! i)) \<and>
            size_bytes (files r ! i) =
              (case snd (fs ! i) of None \<Rightarrow> 0 | Some t \<Rightarrow> int (byte_length t)))"
proof -
  from assms obtain pf s where l: "estimate_loop fs mdl ([], 0) = Inr (pf, s)"
    and "files r = pf"
    by (elim estimate_from_files_cases) simp
  with estimate_loop_entries [OF l] show ?thesis
    by auto
qed

section \<open>The scenarios, evaluated\<close>

lemma is_ascii_replicate: "c < 0x80 \<Longrightarrow> is_ascii (replicate n c)"
  by (simp add: is_ascii_def list_all_iff)

lemma float_of_int_small: "\<bar>n\<bar> < 2 ^ 53 \<Longrightarrow> float_of_int n = Inr (Finite (of_int n))"
  by (simp add: float_of_int_def round_to_double_of_int)

lemma scenario_loop:
  "estimate_loop scenario_files mdl ([], 0)
     = Inr ([\<lparr>path = ''a.py'', size_bytes = 400, tokens = 100\<rparr>,
             \<lparr>path = ''b.py'', size_bytes = 800, tokens = 200\<rparr>], 300)"
proof -
  have "heuristic_token_count (replicate 400 97) = Inr 100"
    using heuristic_token_count_exact [of "replicate 400 97"] by simp
  moreover have "heuristic_token_count (replicate 800 98) = Inr 200"
    using heuristic_token_count_exact [of "replicate 800 98"] by simp
  ultimately show ?thesis
    by (simp add: scenario_files_def count_tokens_def utf8_encode_ascii is_ascii_replicate)
qed

lemma scenario_loop_rev:
  "estimate_loop (rev scenario_files) mdl ([], 0)
     = Inr ([\<lparr>path = ''b.py'', size_bytes = 800, tokens = 200\<rparr>,
             \<lparr>path = ''a.py'', size_bytes = 400, tokens = 100\<rparr>], 300)"
proof -
  have "heuristic_token_count (replicate 400 97) = Inr 100"
    using heuristic_token_count_exact [of "replicate 400 97"] by simp
  moreover have "heuristic_token_count (replicate 800 98) = Inr 200"
    using heuristic_token_count_exact [of "replicate 800 98"] by simp
  ultimately show ?thesis
    by (simp add: scenario_files_def count_tokens_def utf8_encode_ascii is_ascii_replicate)
qed

lemma three_percent_of_300:
  "float_truediv (Finite 3) (Finite 100) = Inr (Finite (1080863910568919 / 36028797018963968))"
  "int_mul_float 300 (Finite (1080863910568919 / 36028797018963968)) = Inr (Finite 9)"
  "float_to_int (Finite 9) = Inr 9"
  using fl_3_percent fl_300_times float_of_int_small [of 300]
  by (simp_all add: int_mul_float_def float_to_int_def)

lemma scenario_estimate:
  "estimate_from_files scenario_files (Some ''gpt-5'') (Finite 3) = Inr scenario_result"
  by (simp add: estimate_from_files_def scenario_loop fl_3_percent three_percent_of_300
      scenario_result_def)

lemma scenario_estimate_rev:
  "estimate_from_files (rev scenario_files) (Some ''gpt-5'') (Finite 3)
     = Inr (scenario_result\<lparr>files := rev (files scenario_result)\<rparr>)"
  by (simp add: estimate_from_files_def scenario_loop_rev fl_3_percent three_percent_of_300
      scenario_result_def)

section \<open>Claims about the aggregation\<close>

text \<open>
  C10. In a produced report the \<open>size_bytes\<close> of every file entry is the UTF-8 byte
  length of the content of that file, and 0 when the content is absent. The token
  estimate of the entry counts code points, so for content that is not pure ASCII
  \<open>size_bytes\<close> exceeds the count the estimate is taken from.
\<close>

theorem size_bytes_is_utf8_length:
  assumes "estimate_from_files fs mdl pct = Inr r"
  shows "length (files r) = length fs \<and>
         (\<forall>i < length fs.
            path (files r ! i) = fst (fs ! i) \<and>
            size_bytes (files r ! i) =
              (case snd (fs ! i) of None \<Rightarrow> 0 | Some t \<Rightarrow> int (byte_length t)) \<and>
            (\<forall>t. snd (fs ! i) = Some t \<and> \<not> is_ascii t \<longrightarrow>
               int (length t) < size_bytes (files r ! i)) \<and>
            (\<forall>t. snd (fs ! i) = Some t \<and> length t < 2 ^ 53 \<longrightarrow>
               tokens (files r ! i) = (int (length t) + 3) div 4))"
proof -
  note e = estimate_from_files_entries [OF assms]
  show ?thesis
  proof (intro conjI allI impI)
    show "length (files r) = length fs"
      using e by simp
  next
    fix i assume "i < length fs"
    with e show "path (files r ! i) = fst (fs ! i)"
      by simp
  next
    fix i assume "i < length fs"
    with e show "size_bytes (files r ! i) =
        (case snd (fs ! i) of None \<Rightarrow> 0 | Some t \<Rightarrow> int (byte_length t))"
      by simp
  next
    fix i t assume i: "i < length fs" and t: "snd (fs ! i) = Some t \<and> \<not> is_ascii t"
    from e i have "size_bytes (files r ! i) =
        (case snd (fs ! i) of None \<Rightarrow> 0 | Some t \<Rightarrow> int (byte_length t))"
      by blast
    with t have "size_bytes (files r ! i) = int (byte_length t)"
      by simp
    with non_ascii_longer [of t] t show "int (length t) < size_bytes (files r ! i)"
      by simp
  next
    fix i t assume i: "i < length fs" and t: "snd (fs ! i) = Some t \<and> length t < 2 ^ 53"
    from e i have "count_tokens (snd (fs ! i)) mdl = Inr (tokens (files r ! i))"
      by blast
    with t have "count_tokens (Some t) mdl = Inr (tokens (files r ! i))"
      by simp
    with heuristic_token_count_exact [of t] t
    show "tokens (files r ! i) = (int (length t) + 3) div 4"
      by (simp add: count_tokens_def)
  qed
qed

lemma accented_estimate:
  "estimate_from_files [(''n.md'', Some [233, 8364]), (''x.bin'', None)] None (Finite 100)
     = Inr \<lparr>model = None, max_context_tokens = None, overhead_percent = Finite 100,
            sum_file_tokens = 1, overhead_tokens = 1, total_tokens = 2,
            files = [\<lparr>path = ''n.md'', size_bytes = 5, tokens = 1\<rparr>,
                     \<lparr>path = ''x.bin'', size_bytes = 0, tokens = 0\<rparr>]\<rparr>"
proof -
  have "heuristic_token_count [233, 8364] = Inr 1"
    using heuristic_token_count_exact [of "[233, 8364]"] by simp
  moreover have "heuristic_token_count [] = Inr 0"
    by (simp add: heuristic_token_count_def)
  moreover have "round_to_double 1 = Finite 1"
    using round_to_double_of_int [of 1] by simp
  ultimately show ?thesis
    using float_of_int_small [of 1]
    by (simp add: estimate_from_files_def count_tokens_def utf8_encode_char_def
        int_mul_float_def float_to_int_def)
qed

theorem size_bytes_is_utf8_length_witness:
  "estimate_from_files [(''n.md'', Some [233, 8364]), (''x.bin'', None)] None (Finite 100)
     = Inr \<lparr>model = None, max_context_tokens = None, overhead_percent = Finite 100,
            sum_file_tokens = 1, overhead_tokens = 1, total_tokens = 2,
            files = [\<lparr>path = ''n.md'', size_bytes = 5, tokens = 1\<rparr>,
                     \<lparr>path = ''x.bin'', size_bytes = 0, tokens = 0\<rparr>]\<rparr> \<and>
   int (byte_length [233, 8364]) = 5 \<and> \<not> is_ascii [233, 8364] \<and>
   int (length [233 :: nat, 8364]) < 5"
  using size_bytes_is_utf8_length [OF accented_estimate] accented_estimate
  by (simp add: byte_length_def utf8_width_def is_ascii_def)

text \<open>
  C7. The aggregation does not depend on the order of the files: when it returns on
  a file map, it returns on every reordering of the entries, with the same
  \<open>sum_file_tokens\<close>, hence the same \<open>overhead_tokens\<close> and \<open>total_tokens\<close> and the
  same comparison with any context window.
\<close>

theorem aggregation_order_invariant:
  assumes "mset fs = mset fs'" and "estimate_from_files fs mdl pct = Inr r"
  shows "\<exists>r'. estimate_from_files fs' mdl pct = Inr r' \<and>
           sum_file_tokens r' = sum_file_tokens r \<and>
           overhead_tokens r' = overhead_tokens r \<and>
           total_tokens r' = total_tokens r \<and>
           (total_tokens r' \<le> mx \<longleftrightarrow> total_tokens r \<le> mx)"
proof -
  from assms(2) obtain pf s fraction product overhead where
    l: "estimate_loop fs mdl ([], 0) = Inr (pf, s)"
    and c: "float_truediv pct (Finite 100) = Inr fraction"
       "int_mul_float s fraction = Inr product"
       "float_to_int product = Inr overhead"
    and r: "r = \<lparr>model = mdl, max_context_tokens = None, overhead_percent = pct,
          sum_file_tokens = s, overhead_tokens = overhead,
          total_tokens = s + overhead, files = pf\<rparr>"
    by (rule estimate_from_files_cases)
  from estimate_loop_permuted [OF assms(1) l] obtain pf2 where
    "estimate_loop fs' mdl ([], 0) = Inr (pf2, s)"
    by blast
  with c have "estimate_from_files fs' mdl pct
      = Inr \<lparr>model = mdl, max_context_tokens = None, overhead_percent = pct,
          sum_file_tokens = s, overhead_tokens = overhead,
          total_tokens = s + overhead, files = pf2\<rparr>"
    by (simp add: estimate_from_files_def)
  with r show ?thesis
    by simp
qed

theorem aggregation_order_invariant_witness:
  "mset scenario_files = mset (rev scenario_files) \<and>
   estimate_from_files scenario_files (Some ''gpt-5'') (Finite 3) = Inr scenario_result \<and>
   (\<exists>r'. estimate_from_files (rev scenario_files) (Some ''gpt-5'') (Finite 3) = Inr r' \<and>
      sum_file_tokens r' = 300 \<and> overhead_tokens r' = 9 \<and> total_tokens r' = 309 \<and>
      (total_tokens r' \<le> 309 \<longleftrightarrow> total_tokens scenario_result \<le> 309))"
proof -
  have m: "mset scenario_files = mset (rev scenario_files)"
    by simp
  from aggregation_order_invariant [OF m scenario_estimate, of 309] m scenario_estimate
  show ?thesis
    by (simp add: scenario_result_def)
qed

section \<open>The overhead and the exact floor\<close>

lemma is_double_less:
  assumes "is_double (Finite p)"
  shows "\<bar>p\<bar> < pow2 1024"
proof (cases "p = 0")
  case True
  then show ?thesis by simp
next
  case False
  with assms have "\<not> pow2 1024 \<le> round_pos \<bar>p\<bar>"
    and "p = (if 0 < p then round_pos \<bar>p\<bar> else - round_pos \<bar>p\<bar>)"
    by (auto simp add: is_double_def round_to_double_def Let_def split: if_splits)
  then show ?thesis
    by (auto split: if_splits)
qed

lemma floor_close:
  fixes c y :: rat
  assumes "\<bar>c - y\<bar> < 1"
  shows "\<bar>\<lfloor>c\<rfloor> - \<lfloor>y\<rfloor>\<bar> \<le> 1"
proof -
  from assms have "c \<le> y + 1" and "y \<le> c + 1"
    by (simp_all add: abs_less_iff)
  then have "\<lfloor>c\<rfloor> \<le> \<lfloor>y + 1\<rfloor>" and "\<lfloor>y\<rfloor> \<le> \<lfloor>c + 1\<rfloor>"
    by (simp_all only: floor_mono)
  then show ?thesis
    by simp
qed

lemma overhead_close:
  assumes s: "0 \<le> s" "s < 2 ^ 53"
    and p: "0 \<le> p" "p < pow2 1024"
    and x: "of_int s * p / 100 \<le> 2 ^ 50"
  obtains r1 c where "round_to_double (p / 100) = Finite r1"
    and "round_to_double (of_int s * r1) = Finite c"
    and "0 \<le> c"
    and "\<bar>c - of_int s * p / 100\<bar> < 1"
proof -
  define S where "S = rat_of_int s"
  define X where "X = p / 100"
  define u where "u = pow2 (- 53)"
  define h where "h = pow2 (- 1075)"
  have S: "0 \<le> S" "S \<le> 2 ^ 53"
    using s by (simp_all add: S_def)
  have X: "0 \<le> X"
    using p by (simp add: X_def)
  have SX: "S * X \<le> 2 ^ 50"
    using x by (simp add: S_def X_def)
  have u: "u = 1 / 2 ^ 53"
    by (simp add: u_def pow2_def)
  have "h \<le> pow2 (- 56)"
    unfolding h_def by (rule pow2_mono) simp
  then have h: "h \<le> 1 / 2 ^ 56" and h0: "0 \<le> h"
    by (simp_all add: pow2_def h_def)
  have "pow2 1024 = 2 * pow2 1023"
    using pow2_Suc [of 1023] by simp
  with p have "\<bar>X\<bar> < pow2 1023"
    by (simp add: X_def)
  then obtain r1 where r1: "round_to_double X = Finite r1"
    and e1: "\<bar>r1 - X\<bar> \<le> \<bar>X\<bar> * u + h"
    and r1_nonneg: "0 \<le> r1"
    unfolding u_def h_def using X by (elim round_to_double_finite) simp
  have Sh: "S * h \<le> 1 / 8"
  proof -
    have "S * h \<le> 2 ^ 53 * (1 / 2 ^ 56)"
      using S h h0 by (intro mult_mono) simp_all
    then show ?thesis by simp
  qed
  have SXu: "S * X * u \<le> 1 / 8"
  proof -
    have "S * X * u \<le> 2 ^ 50 * u"
      using SX by (intro mult_right_mono) (simp_all add: u)
    then show ?thesis by (simp add: u)
  qed
  have d1: "\<bar>S * r1 - S * X\<bar> \<le> 1 / 4"
  proof -
    have "\<bar>S * r1 - S * X\<bar> = S * \<bar>r1 - X\<bar>"
      using S(1) by (simp add: abs_mult flip: right_diff_distrib)
    also have "\<dots> \<le> S * (X * u + h)"
      using e1 X S(1) by (intro mult_left_mono) simp_all
    also have "\<dots> = S * X * u + S * h"
      by (simp add: algebra_simps)
    also have "\<dots> \<le> 1 / 4"
      using SXu Sh by simp
    finally show ?thesis .
  qed
  define q where "q = S * r1"
  have q0: "0 \<le> q"
    using S(1) r1_nonneg by (simp add: q_def)
  have "(2 :: rat) ^ 50 + 1 / 4 \<le> 2 ^ 51"
    by simp
  with d1 SX have q_le: "q \<le> 2 ^ 51"
    unfolding q_def by linarith
  have "(2 :: rat) ^ 51 < pow2 1023"
    using pow2_strict_mono [of 51 1023] by (simp add: pow2_nat)
  with q_le q0 have "\<bar>q\<bar> < pow2 1023"
    by simp
  then obtain c where c: "round_to_double q = Finite c"
    and e2: "\<bar>c - q\<bar> \<le> \<bar>q\<bar> * u + h"
    and c_nonneg: "0 \<le> c"
    unfolding u_def h_def using q0 by (elim round_to_double_finite) simp
  have qu: "q * u \<le> 1 / 4"
  proof -
    have "q * u \<le> 2 ^ 51 * u"
      using q_le by (intro mult_right_mono) (simp_all add: u)
    then show ?thesis by (simp add: u)
  qed
  have "\<bar>q\<bar> = q"
    using q0 by simp
  with e2 qu h have "\<bar>c - q\<bar> \<le> 1 / 4 + 1 / 2 ^ 56"
    by linarith
  moreover have "1 / 4 + 1 / 2 ^ 56 + 1 / 4 < (1 :: rat)"
    by simp
  ultimately have "\<bar>c - S * X\<bar> < 1"
    using d1 unfolding q_def by linarith
  then have "\<bar>c - of_int s * p / 100\<bar> < 1"
    by (simp add: S_def X_def)
  with r1 c c_nonneg show ?thesis
    by (intro that [of r1 c]) (simp_all add: X_def q_def S_def)
qed

lemma file_tokens_nonneg: "file_tokens mdl f = Some t \<Longrightarrow> 0 \<le> t"
  by (auto simp add: file_tokens_def split: sum.splits option.splits
      dest: count_tokens_nonneg)

lemma estimate_loop_nonneg:
  assumes "estimate_loop fs mdl (pf, s) = Inr (pf', s')"
  shows "s \<le> s'"
proof -
  from estimate_loop_sum [OF assms]
  have ok: "\<forall>f \<in> set fs. file_tokens mdl f \<noteq> None"
    and s': "s' = s + sum_list (map (the \<circ> file_tokens mdl) fs)"
    by simp_all
  have "0 \<le> sum_list (map (the \<circ> file_tokens mdl) fs)"
  proof (rule sum_list_nonneg)
    fix x assume "x \<in> set (map (the \<circ> file_tokens mdl) fs)"
    then obtain f where "f \<in> set fs" and "x = the (file_tokens mdl f)"
      by auto
    with ok obtain t where "file_tokens mdl f = Some t" and "x = t"
      by fastforce
    then show "0 \<le> x"
      by (simp add: file_tokens_nonneg)
  qed
  with s' show ?thesis
    by simp
qed

lemma is_double_of_int: "\<bar>n\<bar> < 2 ^ 53 \<Longrightarrow> is_double (Finite (of_int n))"
  by (simp add: is_double_def round_to_double_of_int)

lemma twentynine_percent:
  "float_truediv (Finite 29) (Finite 100)
     = Inr (Finite (5224175567749775 / 18014398509481984))"
  "int_mul_float 100 (Finite (5224175567749775 / 18014398509481984))
     = Inr (Finite (8162774324609023 / 281474976710656))"
  "float_to_int (Finite (8162774324609023 / 281474976710656)) = Inr 28"
  using fl_29_percent fl_100_times float_of_int_small [of 100]
  by (simp_all add: int_mul_float_def float_to_int_def floor_divide_numeral_rat)

lemma twentynine_percent_of_100:
  "estimate_from_files [(''x.py'', Some (replicate 400 97))] None (Finite 29)
     = Inr \<lparr>model = None, max_context_tokens = None, overhead_percent = Finite 29,
            sum_file_tokens = 100, overhead_tokens = 28, total_tokens = 128,
            files = [\<lparr>path = ''x.py'', size_bytes = 400, tokens = 100\<rparr>]\<rparr>"
proof -
  have "heuristic_token_count (replicate 400 97) = Inr 100"
    using heuristic_token_count_exact [of "replicate 400 97"] by simp
  then have "estimate_loop [(''x.py'', Some (replicate 400 97))] None ([], 0)
      = Inr ([\<lparr>path = ''x.py'', size_bytes = 400, tokens = 100\<rparr>], 100)"
    by (simp add: count_tokens_def utf8_encode_ascii is_ascii_replicate)
  then show ?thesis
    by (simp add: estimate_from_files_def fl_29_percent twentynine_percent)
qed

text \<open>
  C2. The overhead is said to be the exact floor of \<open>sum_file_tokens * p / 100\<close>. The
  code computes \<open>int(sum_file_tokens * (overhead_percent / 100.0))\<close> in binary64
  arithmetic, and the two roundings can land just below an integer: for one file of 400
  ASCII characters (100 tokens) and 29 percent the quotient \<open>29.0 / 100.0\<close> is the double
  just below 0.29, the product rounds to the double just below 29, and the overhead is
  28, while the exact floor of \<open>100 * 29 / 100\<close> is 29.
\<close>

theorem overhead_exact_floor_counterexample:
  "estimate_from_files [(''x.py'', Some (replicate 400 97))] None (Finite 29)
     = Inr \<lparr>model = None, max_context_tokens = None, overhead_percent = Finite 29,
            sum_file_tokens = 100, overhead_tokens = 28, total_tokens = 128,
            files = [\<lparr>path = ''x.py'', size_bytes = 400, tokens = 100\<rparr>]\<rparr> \<and>
   is_double (Finite 29) \<and> (0 :: rat) \<le> 29 \<and>
   \<lfloor>rat_of_int 100 * 29 / 100\<rfloor> = 29"
  using twentynine_percent_of_100 is_double_of_int [of 29]
  by simp

text \<open>
  C2, as the code has it. Whenever the loop over the files ends with a sum \<open>s\<close> below
  \<open>2 ^ 53\<close>, and the percentage \<open>p\<close> is a finite double, not negative, with
  \<open>s * p / 100\<close> at most \<open>2 ^ 50\<close>, the aggregator returns a result with that sum, whose
  \<open>overhead_tokens\<close> is \<open>int(s * (p / 100.0))\<close> in binary64 arithmetic: the quotient
  \<open>p / 100\<close> rounded to a double, its product with \<open>s\<close> rounded to a double, and the
  integer part of that. This number is at most one away from the exact floor of
  \<open>s * p / 100\<close>, and \<open>total_tokens\<close> is \<open>sum_file_tokens + overhead_tokens\<close>.
\<close>

theorem overhead_is_binary64_product:
  assumes "estimate_loop fs mdl ([], 0) = Inr (pf, s)"
    and "is_double (Finite p)" and "0 \<le> p"
    and "s < 2 ^ 53" and "of_int s * p / 100 \<le> 2 ^ 50"
  shows "\<exists>r fraction product.
           estimate_from_files fs mdl (Finite p) = Inr r \<and>
           sum_file_tokens r = s \<and>
           round_to_double (p / 100) = Finite fraction \<and>
           round_to_double (of_int s * fraction) = Finite product \<and>
           overhead_tokens r = \<lfloor>product\<rfloor> \<and>
           total_tokens r = sum_file_tokens r + overhead_tokens r \<and>
           \<bar>overhead_tokens r - \<lfloor>of_int s * p / 100\<rfloor>\<bar> \<le> 1"
proof -
  have s0: "0 \<le> s"
    using estimate_loop_nonneg [OF assms(1)] .
  have p: "p < pow2 1024"
    using is_double_less [OF assms(2)] by simp
  from overhead_close [OF s0 assms(4) assms(3) p assms(5)] obtain r1 c where
    r1: "round_to_double (p / 100) = Finite r1"
    and c: "round_to_double (of_int s * r1) = Finite c"
    and c0: "0 \<le> c"
    and close: "\<bar>c - of_int s * p / 100\<bar> < 1"
    by blast
  have "\<bar>s\<bar> < 2 ^ 53"
    using s0 assms(4) by simp
  then have f: "float_of_int s = Inr (Finite (of_int s))"
    by (rule float_of_int_small)
  let ?r = "\<lparr>model = mdl, max_context_tokens = None, overhead_percent = Finite p,
             sum_file_tokens = s, overhead_tokens = \<lfloor>c\<rfloor>,
             total_tokens = s + \<lfloor>c\<rfloor>, files = pf\<rparr>"
  have e: "estimate_from_files fs mdl (Finite p) = Inr ?r"
    using assms(1) r1 c c0 f
    by (simp add: estimate_from_files_def int_mul_float_def float_to_int_def)
  have fl: "\<bar>\<lfloor>c\<rfloor> - \<lfloor>of_int s * p / 100\<rfloor>\<bar> \<le> 1"
    using close by (rule floor_close)
  show ?thesis
  proof (intro exI conjI)
    show "estimate_from_files fs mdl (Finite p) = Inr ?r"
      by (rule e)
    show "round_to_double (p / 100) = Finite r1"
      by (rule r1)
    show "round_to_double (of_int s * r1) = Finite c"
      by (rule c)
    show "\<bar>overhead_tokens ?r - \<lfloor>of_int s * p / 100\<rfloor>\<bar> \<le> 1"
      using fl by simp
  qed simp_all
qed

theorem overhead_is_binary64_product_witness:
  "estimate_loop scenario_files (Some ''gpt-5'') ([], 0)
     = Inr ([\<lparr>path = ''a.py'', size_bytes = 400, tokens = 100\<rparr>,
             \<lparr>path = ''b.py'', size_bytes = 800, tokens = 200\<rparr>], 300) \<and>
   is_double (Finite 3) \<and> (0 :: rat) \<le> 3 \<and> (300 :: int) < 2 ^ 53 \<and>
   rat_of_int 300 * 3 / 100 \<le> 2 ^ 50 \<and>
   (\<exists>r. estimate_from_files scenario_files (Some ''gpt-5'') (Finite 3) = Inr r \<and>
      sum_file_tokens r = 300 \<and> overhead_tokens r = 9 \<and> total_tokens r = 309)"
proof -
  have d: "is_double (Finite 3)"
    using is_double_of_int [of 3] by simp
  have b: "rat_of_int 300 * 3 / 100 \<le> 2 ^ 50"
    by simp
  from overhead_is_binary64_product [OF scenario_loop [of "Some ''gpt-5''"] d _ _ b]
  obtain r fraction product where
    e: "estimate_from_files scenario_files (Some ''gpt-5'') (Finite 3) = Inr r"
    and s: "sum_file_tokens r = 300"
    and f: "round_to_double (3 / 100) = Finite fraction"
    and c: "round_to_double (300 * fraction) = Finite product"
    and o: "overhead_tokens r = \<lfloor>product\<rfloor>"
    and t: "total_tokens r = sum_file_tokens r + overhead_tokens r"
    by auto
  from f fl_3_percent have "fraction = 1080863910568919 / 36028797018963968"
    by simp
  with c fl_300_times have "product = 9"
    by simp
  with o have "overhead_tokens r = 9"
    by simp
  with e s t scenario_loop d show ?thesis
    by simp
qed

section \<open>The command-line run\<close>

lemma gather_files_io:
  "fst (gather_files w p r i e m t) =
     (if truthy p then [CrawlLocal (the p)]
      else if truthy r then [CrawlGithub (the r)] else [])"
  by (simp add: gather_files_def)

lemma estimate_repo_tokens_io:
  "fst (estimate_repo_tokens w p r i e m mdl pct t) = fst (gather_files w p r i e m t)"
  by (simp add: estimate_repo_tokens_def split: prod.splits sum.splits)

lemma estimate_repo_tokens_no_output:
  assumes "estimate_repo_tokens w p r i e m mdl pct t = (io0, res)"
  shows "Stdout pr \<notin> set io0" and "FileWritten out pl \<notin> set io0"
    and "WarningPrinted out msg \<notin> set io0"
proof -
  from assms have "io0 = fst (gather_files w p r i e m t)"
    using estimate_repo_tokens_io [of w p r i e m mdl pct t] by simp
  then show "Stdout pr \<notin> set io0" and "FileWritten out pl \<notin> set io0"
    and "WarningPrinted out msg \<notin> set io0"
    by (simp_all add: gather_files_io)
qed

lemma run_estimate_cli_cases:
  assumes "run_estimate_cli w a = (io, Inr code)"
  obtains io0 result pr pl where
    "estimate_repo_tokens w (args_dir a) (args_repo a)
        (pattern_set (args_include a)) (pattern_set (args_exclude a))
        (args_max_size a) (args_model a) (args_overhead_percent a)
        (if truthy (args_repo a) then py_or (args_token a) (environ_GITHUB_TOKEN w)
         else None)
      = (io0, Inr result)"
    and "code = (if total_tokens result \<le> args_max_context_tokens a then 0 else 2)"
    and "printed_total_tokens pr = total_tokens result"
    and "printed_max_context_tokens pr = Some (args_max_context_tokens a)"
    and "printed_within_limit pr \<longleftrightarrow> total_tokens result \<le> args_max_context_tokens a"
    and "total_tokens pl = total_tokens result"
    and "max_context_tokens pl = Some (args_max_context_tokens a)"
    and "within_limit pl \<longleftrightarrow> total_tokens result \<le> args_max_context_tokens a"
    and "files pl = files result"
    and "io = io0 @ [Stdout pr] @
           (if truthy (args_out a) then
              (case write_output w (the (args_out a)) of
                 None \<Rightarrow> [FileWritten (the (args_out a)) pl]
               | Some msg \<Rightarrow> [WarningPrinted (the (args_out a)) msg])
            else [])"
proof -
  let ?tok = "if truthy (args_repo a) then py_or (args_token a) (environ_GITHUB_TOKEN w)
              else None"
  let ?mx = "args_max_context_tokens a"
  obtain io0 res where e: "estimate_repo_tokens w (args_dir a) (args_repo a)
        (pattern_set (args_include a)) (pattern_set (args_exclude a))
        (args_max_size a) (args_model a) (args_overhead_percent a) ?tok = (io0, res)"
    by (cases "estimate_repo_tokens w (args_dir a) (args_repo a)
        (pattern_set (args_include a)) (pattern_set (args_exclude a))
        (args_max_size a) (args_model a) (args_overhead_percent a) ?tok")
  from assms e obtain result where res: "res = Inr result"
    by (cases res) (simp_all add: run_estimate_cli_def)
  define pl where "pl = \<lparr>model = model result, max_context_tokens = Some ?mx,
      overhead_percent = overhead_percent result,
      sum_file_tokens = sum_file_tokens result,
      overhead_tokens = overhead_tokens result,
      total_tokens = total_tokens result, files = files result,
      within_limit = (total_tokens result \<le> ?mx)\<rparr>"
  define pr where "pr = \<lparr>printed_model = model result,
      printed_max_context_tokens = Some ?mx,
      printed_overhead_percent = overhead_percent result,
      printed_sum_file_tokens = sum_file_tokens result,
      printed_overhead_tokens = overhead_tokens result,
      printed_total_tokens = total_tokens result,
      printed_within_limit = (total_tokens result \<le> ?mx),
      printed_file_count = length (files result)\<rparr>"
  from assms e res
  have "code = (if total_tokens result \<le> ?mx then 0 else 2)"
    and "io = io0 @ [Stdout pr] @
           (if truthy (args_out a) then
              (case write_output w (the (args_out a)) of
                 None \<Rightarrow> [FileWritten (the (args_out a)) pl]
               | Some msg \<Rightarrow> [WarningPrinted (the (args_out a)) msg])
            else [])"
    by (auto simp add: run_estimate_cli_def Let_def pl_def pr_def
        split: option.splits if_splits)
  with e res show ?thesis
    by (intro that [of io0 result pr pl]) (simp_all add: pl_def pr_def)
qed

lemma estimate_repo_tokens_write_output:
  "estimate_repo_tokens (w\<lparr>write_output := f\<rparr>) p r i e m mdl pct t
     = estimate_repo_tokens w p r i e m mdl pct t"
  by (simp add: estimate_repo_tokens_def gather_files_def)

lemma scenario_repo_estimate:
  assumes "crawl_local_files w = (\<lambda>p i e m. Inr (Some scenario_files))"
  shows "estimate_repo_tokens w (Some ''repo'') r i e m (Some ''gpt-5'') (Finite 3) t
     = ([CrawlLocal ''repo''], Inr scenario_result)"
  by (simp add: estimate_repo_tokens_def gather_files_def truthy_def files_of_def
      assms scenario_estimate)

lemma scenario_world_crawl:
  "crawl_local_files (scenario_world wr) = (\<lambda>p i e m. Inr (Some scenario_files))"
  "crawl_local_files ((scenario_world wr)\<lparr>print_raises := pf\<rparr>)
     = (\<lambda>p i e m. Inr (Some scenario_files))"
  by (simp_all add: scenario_world_def)

lemma scenario_world_fields:
  "write_output (scenario_world wr) p = wr"
  "print_raises (scenario_world wr) t = None"
  "write_output ((scenario_world wr)\<lparr>print_raises := pf\<rparr>) p = wr"
  "print_raises ((scenario_world wr)\<lparr>print_raises := pf\<rparr>) t = pf t"
  by (simp_all add: scenario_world_def)

lemma scenario_run:
  "run_estimate_cli (scenario_world wr) (scenario_args mx out)
     = ([CrawlLocal ''repo'', Stdout (scenario_printed mx)] @
        (if truthy out then
           (case wr of None \<Rightarrow> [FileWritten (the out) (scenario_payload mx)]
            | Some msg \<Rightarrow> [WarningPrinted (the out) msg])
         else []),
        Inr (if 309 \<le> mx then 0 else 2))"
proof -
  note w = scenario_world_fields
  note e = scenario_repo_estimate [OF scenario_world_crawl(1)]
  show ?thesis
    unfolding run_estimate_cli_def Let_def
    by (simp add: scenario_args_def e w scenario_result_def
        scenario_printed_def scenario_payload_def split: option.splits)
qed

lemma scenario_run_ascii_stdout:
  "run_estimate_cli ((scenario_world wr)\<lparr>print_raises := ascii_stdout\<rparr>)
      (scenario_args mx (Some accented_path))
     = (case wr of
          None \<Rightarrow> ([CrawlLocal ''repo'', Stdout (scenario_printed mx),
                    FileWritten accented_path (scenario_payload mx)],
                   Inr (if 309 \<le> mx then 0 else 2))
        | Some msg \<Rightarrow> ([CrawlLocal ''repo'', Stdout (scenario_printed mx)],
                       Inl (UnicodeEncodeError ''ordinal not in range(128)'')))"
proof -
  note w = scenario_world_fields
  have a: "ascii_stdout (SummaryText pr) = None"
    "ascii_stdout (WarningText accented_path msg)
       = Some (UnicodeEncodeError ''ordinal not in range(128)'')" for pr msg
    by (simp_all add: ascii_stdout_def accented_path_def)
  have t: "truthy (Some accented_path)"
    by (simp add: truthy_def accented_path_def)
  note e = scenario_repo_estimate [OF scenario_world_crawl(2)]
  show ?thesis
    unfolding run_estimate_cli_def Let_def
    by (simp add: scenario_args_def e w a t scenario_result_def
        scenario_printed_def scenario_payload_def split: option.splits)
qed

section \<open>Claims about the report and the exit code\<close>

text \<open>
  C3. In every report of a run that returns, the flag \<open>within_limit\<close> is true exactly
  when the \<open>total_tokens\<close> of the estimate is at most \<open>max_context_tokens\<close>, the case
  of equality included. The total and the limit in the report are those of the
  estimate and of the arguments. This holds of the summary on standard output, which
  every such run prints, and of the report written to a file.
\<close>

theorem within_limit_iff_total_le_max:
  assumes "run_estimate_cli w a = (io, Inr code)"
  shows "\<exists>io0 result.
           estimate_repo_tokens w (args_dir a) (args_repo a)
              (pattern_set (args_include a)) (pattern_set (args_exclude a))
              (args_max_size a) (args_model a) (args_overhead_percent a)
              (if truthy (args_repo a) then py_or (args_token a) (environ_GITHUB_TOKEN w)
               else None)
            = (io0, Inr result) \<and>
           (\<exists>pr. Stdout pr \<in> set io) \<and>
           (\<forall>pr. Stdout pr \<in> set io \<longrightarrow>
              printed_total_tokens pr = total_tokens result \<and>
              printed_max_context_tokens pr = Some (args_max_context_tokens a) \<and>
              (printed_within_limit pr \<longleftrightarrow>
                 total_tokens result \<le> args_max_context_tokens a)) \<and>
           (\<forall>out pl. FileWritten out pl \<in> set io \<longrightarrow>
              total_tokens pl = total_tokens result \<and>
              max_context_tokens pl = Some (args_max_context_tokens a) \<and>
              (within_limit pl \<longleftrightarrow> total_tokens result \<le> args_max_context_tokens a))"
proof -
  from assms obtain io0 result pr0 pl0 where
    e: "estimate_repo_tokens w (args_dir a) (args_repo a)
        (pattern_set (args_include a)) (pattern_set (args_exclude a))
        (args_max_size a) (args_model a) (args_overhead_percent a)
        (if truthy (args_repo a) then py_or (args_token a) (environ_GITHUB_TOKEN w)
         else None)
      = (io0, Inr result)"
    and pr0: "printed_total_tokens pr0 = total_tokens result"
      "printed_max_context_tokens pr0 = Some (args_max_context_tokens a)"
      "printed_within_limit pr0 \<longleftrightarrow> total_tokens result \<le> args_max_context_tokens a"
    and pl0: "total_tokens pl0 = total_tokens result"
      "max_context_tokens pl0 = Some (args_max_context_tokens a)"
      "within_limit pl0 \<longleftrightarrow> total_tokens result \<le> args_max_context_tokens a"
    and io: "io = io0 @ [Stdout pr0] @
           (if truthy (args_out a) then
              (case write_output w (the (args_out a)) of
                 None \<Rightarrow> [FileWritten (the (args_out a)) pl0]
               | Some msg \<Rightarrow> [WarningPrinted (the (args_out a)) msg])
            else [])"
    by (rule run_estimate_cli_cases)
  note quiet = estimate_repo_tokens_no_output [OF e]
  have 1: "\<exists>pr. Stdout pr \<in> set io"
    using io by auto
  have 2: "pr = pr0" if "Stdout pr \<in> set io" for pr
    using that io quiet(1) by (auto split: if_splits option.splits)
  have 3: "pl = pl0" if "FileWritten out pl \<in> set io" for out pl
    using that io quiet(2) by (auto split: if_splits option.splits)
  have P: "printed_total_tokens pr = total_tokens result \<and>
      printed_max_context_tokens pr = Some (args_max_context_tokens a) \<and>
      (printed_within_limit pr \<longleftrightarrow> total_tokens result \<le> args_max_context_tokens a)"
    if "Stdout pr \<in> set io" for pr
    using 2 [OF that] pr0 by simp
  have Q: "total_tokens pl = total_tokens result \<and>
      max_context_tokens pl = Some (args_max_context_tokens a) \<and>
      (within_limit pl \<longleftrightarrow> total_tokens result \<le> args_max_context_tokens a)"
    if "FileWritten out pl \<in> set io" for out pl
    using 3 [OF that] pl0 by simp
  from e 1 P Q show ?thesis
    by blast
qed

lemma scenario_args_estimate:
  "estimate_repo_tokens (scenario_world wr) (args_dir (scenario_args mx out))
      (args_repo (scenario_args mx out))
      (pattern_set (args_include (scenario_args mx out)))
      (pattern_set (args_exclude (scenario_args mx out)))
      (args_max_size (scenario_args mx out)) (args_model (scenario_args mx out))
      (args_overhead_percent (scenario_args mx out))
      (if truthy (args_repo (scenario_args mx out))
       then py_or (args_token (scenario_args mx out))
              (environ_GITHUB_TOKEN (scenario_world wr))
       else None)
     = ([CrawlLocal ''repo''], Inr scenario_result)"
  using scenario_repo_estimate [OF scenario_world_crawl(1)]
  by (simp add: scenario_args_def)

theorem within_limit_iff_total_le_max_witness:
  "run_estimate_cli (scenario_world None) (scenario_args 309 (Some ''out.json''))
     = ([CrawlLocal ''repo'', Stdout (scenario_printed 309),
         FileWritten ''out.json'' (scenario_payload 309)], Inr 0) \<and>
   run_estimate_cli (scenario_world None) (scenario_args 308 (Some ''out.json''))
     = ([CrawlLocal ''repo'', Stdout (scenario_printed 308),
         FileWritten ''out.json'' (scenario_payload 308)], Inr 2) \<and>
   total_tokens scenario_result = 309 \<and>
   printed_total_tokens (scenario_printed 309) = 309 \<and>
   printed_within_limit (scenario_printed 309) \<and>
   within_limit (scenario_payload 309) \<and>
   printed_total_tokens (scenario_printed 308) = 309 \<and>
   \<not> printed_within_limit (scenario_printed 308) \<and>
   \<not> within_limit (scenario_payload 308)"
proof -
  have h: "run_estimate_cli (scenario_world None) (scenario_args 309 (Some ''out.json''))
     = ([CrawlLocal ''repo'', Stdout (scenario_printed 309),
         FileWritten ''out.json'' (scenario_payload 309)], Inr 0)"
    by (simp add: scenario_run truthy_def)
  have k: "run_estimate_cli (scenario_world None) (scenario_args 308 (Some ''out.json''))
     = ([CrawlLocal ''repo'', Stdout (scenario_printed 308),
         FileWritten ''out.json'' (scenario_payload 308)], Inr 2)"
    by (simp add: scenario_run truthy_def)
  have mx: "args_max_context_tokens (scenario_args mx out) = mx" for mx out
    by (simp add: scenario_args_def)
  have t: "total_tokens scenario_result = 309"
    by (simp add: scenario_result_def)
  from within_limit_iff_total_le_max [OF h]
  have 1: "printed_total_tokens (scenario_printed 309) = 309 \<and>
      printed_within_limit (scenario_printed 309) \<and> within_limit (scenario_payload 309)"
    by (simp add: scenario_args_estimate mx t)
  from within_limit_iff_total_le_max [OF k]
  have 2: "printed_total_tokens (scenario_printed 308) = 309 \<and>
      \<not> printed_within_limit (scenario_printed 308) \<and> \<not> within_limit (scenario_payload 308)"
    by (simp add: scenario_args_estimate mx t)
  from h k t 1 2 show ?thesis
    by (intro conjI) simp_all
qed

text \<open>
  C5. When the run returns an exit code, the code is 0 if the printed \<open>within_limit\<close>
  is true and 2 if it is false; it returns no other code.
\<close>

theorem exit_code_zero_or_two:
  assumes "run_estimate_cli w a = (io, Inr code)"
  shows "(code = 0 \<or> code = 2) \<and>
         (\<exists>pr. Stdout pr \<in> set io) \<and>
         (\<forall>pr. Stdout pr \<in> set io \<longrightarrow>
            (printed_within_limit pr \<longrightarrow> code = 0) \<and>
            (\<not> printed_within_limit pr \<longrightarrow> code = 2))"
proof -
  from assms obtain io0 result pr0 pl0 where
    e: "estimate_repo_tokens w (args_dir a) (args_repo a)
        (pattern_set (args_include a)) (pattern_set (args_exclude a))
        (args_max_size a) (args_model a) (args_overhead_percent a)
        (if truthy (args_repo a) then py_or (args_token a) (environ_GITHUB_TOKEN w)
         else None)
      = (io0, Inr result)"
    and code: "code = (if total_tokens result \<le> args_max_context_tokens a then 0 else 2)"
    and pr0: "printed_within_limit pr0 \<longleftrightarrow> total_tokens result \<le> args_max_context_tokens a"
    and io: "io = io0 @ [Stdout pr0] @
           (if truthy (args_out a) then
              (case write_output w (the (args_out a)) of
                 None \<Rightarrow> [FileWritten (the (args_out a)) pl0]
               | Some msg \<Rightarrow> [WarningPrinted (the (args_out a)) msg])
            else [])"
    by (rule run_estimate_cli_cases)
  note quiet = estimate_repo_tokens_no_output [OF e]
  have 1: "\<exists>pr. Stdout pr \<in> set io"
    using io by auto
  have 2: "pr = pr0" if "Stdout pr \<in> set io" for pr
    using that io quiet(1) by (auto split: if_splits option.splits)
  have P: "(printed_within_limit pr \<longrightarrow> code = 0) \<and>
      (\<not> printed_within_limit pr \<longrightarrow> code = 2)"
    if "Stdout pr \<in> set io" for pr
    using 2 [OF that] pr0 code by simp
  have "code = 0 \<or> code = 2"
    using code by simp
  with 1 P show ?thesis
    by blast
qed

theorem exit_code_zero_or_two_witness:
  "run_estimate_cli (scenario_world None) (scenario_args 100 None)
     = ([CrawlLocal ''repo'', Stdout (scenario_printed 100)], Inr 2) \<and>
   \<not> printed_within_limit (scenario_printed 100) \<and>
   run_estimate_cli (scenario_world None) (scenario_args 1000000 None)
     = ([CrawlLocal ''repo'', Stdout (scenario_printed 1000000)], Inr 0) \<and>
   printed_within_limit (scenario_printed 1000000)"
proof -
  have h: "run_estimate_cli (scenario_world None) (scenario_args 100 None)
     = ([CrawlLocal ''repo'', Stdout (scenario_printed 100)], Inr 2)"
    by (simp add: scenario_run truthy_def)
  have k: "run_estimate_cli (scenario_world None) (scenario_args 1000000 None)
     = ([CrawlLocal ''repo'', Stdout (scenario_printed 1000000)], Inr 0)"
    by (simp add: scenario_run truthy_def)
  from exit_code_zero_or_two [OF h] exit_code_zero_or_two [OF k] h k show ?thesis
    by (simp add: scenario_printed_def)
qed

text \<open>
  C6. A failed write of the report is said to be reported as a warning and to leave
  the exit code as it is when the write succeeds. The warning is printed inside the
  handler of the exception, with the path and the message as they are, and that
  \<open>print\<close> can raise in its turn. In the scenario with the window of 100 tokens, a
  standard output in ASCII and the report sent to \<open>accented_path\<close>: when the write is
  refused, the run ends in \<open>UnicodeEncodeError\<close>, with no warning and no exit code;
  when the write succeeds, the same run returns the exit code 2.
\<close>

theorem failed_write_warning_raises:
  "run_estimate_cli
      ((scenario_world (Some ''[Errno 13] Permission denied''))\<lparr>print_raises := ascii_stdout\<rparr>)
      (scenario_args 100 (Some accented_path))
     = ([CrawlLocal ''repo'', Stdout (scenario_printed 100)],
        Inl (UnicodeEncodeError ''ordinal not in range(128)'')) \<and>
   run_estimate_cli ((scenario_world None)\<lparr>print_raises := ascii_stdout\<rparr>)
      (scenario_args 100 (Some accented_path))
     = ([CrawlLocal ''repo'', Stdout (scenario_printed 100),
         FileWritten accented_path (scenario_payload 100)], Inr 2)"
  by (simp add: scenario_run_ascii_stdout)

section \<open>Claims about the choice of the source\<close>



lemma main_scenario:
  "main (scenario_world None) (scenario_cli [(FlagDir, ''repo'')] mx)
     = ([CrawlLocal ''repo'', Stdout (scenario_printed mx)],
        Inr (if 309 \<le> mx then 0 else 2))"
proof -
  have "parse_args (scenario_cli [(FlagDir, ''repo'')] mx) = Inr (scenario_args mx None)"
    by (simp add: parse_args_def scenario_cli_def scenario_args_def)
  then show ?thesis
    by (simp add: main_def scenario_run truthy_def)
qed



end
